theory Spec2Isabelle
  imports Complex_Main "HOL-Library.Word"
begin

section \<open>Values of the Go program\<close>

text \<open>
  A Go \<^verbatim>\<open>string\<close> is a sequence of bytes, and \<^verbatim>\<open>len\<close> and the slice expression
  count bytes: it is a \<^typ>\<open>string\<close> here. The formatting verbs and
  \<^verbatim>\<open>strings.TrimSpace\<close> count and classify runes: they decode the bytes as UTF-8, an
  ill-formed byte being a rune of its own (subsection Runes below).

  A Go \<^verbatim>\<open>int\<close> is a 64-bit two's complement word (a 64-bit platform): \<open>+\<close> wraps.
\<close>

type_synonym go_int = "64 word"

text \<open>
  \<^verbatim>\<open>decimal.Decimal\<close> is an arbitrary-precision decimal number; \<^verbatim>\<open>Add\<close>, \<^verbatim>\<open>Sub\<close>,
  \<^verbatim>\<open>Abs\<close>, \<^verbatim>\<open>Sign\<close> and \<^verbatim>\<open>Cmp\<close> are exact. A decimal is represented by the
  rational number it denotes, so equality below is the library's \<^verbatim>\<open>Cmp(..) == 0\<close>.
  The zero value \<^verbatim>\<open>Decimal{}\<close> denotes 0.
\<close>

type_synonym Decimal = rat

text \<open>
  The package's error values, the error built by
  \<^verbatim>\<open>fmt.Errorf("%v (record %d)", ErrInvalidRecord, i)\<close>, and \<^verbatim>\<open>io.EOF\<close>.
\<close>

datatype error =
    ErrInsufficientRecords
  | ErrInsufficientBatches
  | ErrInvalidRecord
  | ErrBadFileHeader
  | ErrBadBatchHeader
  | ErrBadRecord
  | ErrBadBatchTrailer
  | ErrBadFileTrailer
  | ErrUnexpectedRecordType
  | Errorf_InvalidRecord nat
  | EOF

definition Debit :: string where "Debit = ''DR''"
definition Credit :: string where "Credit = ''CR''"
definition BatchTXN :: string where "BatchTXN = ''ST''"
definition BatchPAY :: string where "BatchPAY = ''SP''"

subsection \<open>Bytes and digits\<close>

definition isDigit :: "char \<Rightarrow> bool" where
  "isDigit c \<longleftrightarrow> 48 \<le> (of_char c :: nat) \<and> (of_char c :: nat) \<le> 57"

definition digitVal :: "char \<Rightarrow> nat" where
  "digitVal c = of_char c - 48"

definition digitChar :: "nat \<Rightarrow> char" where
  "digitChar d = char_of (48 + d)"

text \<open>The decimal digits of a natural number, most significant first.\<close>

fun digits :: "nat \<Rightarrow> string" where
  "digits n = (if n < 10 then [digitChar n] else digits (n div 10) @ [digitChar (n mod 10)])"

declare digits.simps [simp del]

definition digitsVal :: "string \<Rightarrow> nat" where
  "digitsVal s = foldl (\<lambda>a c. a * 10 + digitVal c) 0 s"

text \<open>The Go slice expression \<^verbatim>\<open>l[a:b]\<close>, used only with \<open>a \<le> b \<le> len(l)\<close>.\<close>

definition slice :: "string \<Rightarrow> nat \<Rightarrow> nat \<Rightarrow> string" where
  "slice l a b = take (b - a) (drop a l)"

subsection \<open>Runes\<close>

text \<open>
  A rune is its code point, a natural number. \<^verbatim>\<open>utf8.DecodeRuneInString\<close> returns the
  first rune of a string and its width in bytes: a byte below 128 is itself; a leading
  byte \<^verbatim>\<open>C2\<close> to \<^verbatim>\<open>F4\<close> announces 2, 3 or 4 bytes, the second within the range the
  leading byte accepts and the others within \<^verbatim>\<open>80\<close> to \<^verbatim>\<open>BF\<close>; anything else is
  \<^verbatim>\<open>RuneError\<close> of width 1 (width 0 for the empty string).
\<close>

definition RuneError :: nat where
  "RuneError = 0xFFFD"

definition DecodeRuneInString :: "string \<Rightarrow> nat \<times> nat" where
  "DecodeRuneInString s =
     (let n = length s; b = (\<lambda>i. (of_char (s ! i) :: nat))
      in if n < 1 then (RuneError, 0)
         else if b 0 < 0x80 then (b 0, 1)
         else if b 0 < 0xC2 \<or> 0xF4 < b 0 then (RuneError, 1)
         else
           let sz = (if b 0 < 0xE0 then 2 else if b 0 < 0xF0 then 3 else 4);
               lo = (if b 0 = 0xE0 then 0xA0 else if b 0 = 0xF0 then 0x90 else 0x80);
               hi = (if b 0 = 0xED then 0x9F else if b 0 = 0xF4 then 0x8F else 0xBF)
           in if n < sz then (RuneError, 1)
              else if b 1 < lo \<or> hi < b 1 then (RuneError, 1)
              else if sz \<le> 2 then ((b 0 mod 32) * 64 + b 1 mod 64, 2)
              else if b 2 < 0x80 \<or> 0xBF < b 2 then (RuneError, 1)
              else if sz \<le> 3 then ((b 0 mod 16) * 4096 + (b 1 mod 64) * 64 + b 2 mod 64, 3)
              else if b 3 < 0x80 \<or> 0xBF < b 3 then (RuneError, 1)
              else ((b 0 mod 8) * 262144 + (b 1 mod 64) * 4096 + (b 2 mod 64) * 64
                    + b 3 mod 64, 4))"

text \<open>
  \<^verbatim>\<open>utf8.DecodeLastRuneInString\<close>: the last rune of a string and its width. It looks
  back over at most \<^verbatim>\<open>UTFMax = 4\<close> bytes for a byte that can start a rune
  (\<^verbatim>\<open>utf8.RuneStart\<close>: not a continuation byte), decodes from there, and takes the
  result only when it ends where the string ends.
\<close>

definition RuneStart :: "char \<Rightarrow> bool" where
  "RuneStart b \<longleftrightarrow> (of_char b :: nat) div 64 \<noteq> 2"

definition DecodeLastRuneInString :: "string \<Rightarrow> nat \<times> nat" where
  "DecodeLastRuneInString s =
     (let n = length s
      in if n = 0 then (RuneError, 0)
         else if (of_char (s ! (n - 1)) :: nat) < 0x80 then (of_char (s ! (n - 1)), 1)
         else
           let lim = n - 4;
               start = (case find (\<lambda>i. RuneStart (s ! i)) (rev [lim ..< n - 1]) of
                          Some i \<Rightarrow> i
                        | None \<Rightarrow> lim - 1)
           in case DecodeRuneInString (drop start s) of
                (r, wd) \<Rightarrow> if start + wd \<noteq> n then (RuneError, 1) else (r, wd))"

lemma DecodeRuneInString_size: "s \<noteq> [] \<Longrightarrow> 0 < snd (DecodeRuneInString s)"
  by (cases s) (simp_all add: DecodeRuneInString_def Let_def)

lemma find_in_set: "find P xs = Some x \<Longrightarrow> x \<in> set xs"
  by (induction xs) (auto split: if_splits)

lemma DecodeLastRuneInString_size:
  assumes "s \<noteq> []"
  shows "0 < snd (DecodeLastRuneInString s) \<and> snd (DecodeLastRuneInString s) \<le> length s"
proof -
  obtain c t where s: "s = c # t" using assms by (cases s) auto
  then have n: "length s = Suc (length t)" by simp
  show ?thesis
  proof (cases "(of_char (s ! (length s - 1)) :: nat) < 0x80")
    case True
    then show ?thesis by (simp add: DecodeLastRuneInString_def Let_def n)
  next
    case False
    define start where
      "start = (case find (\<lambda>i. RuneStart (s ! i)) (rev [length s - 4 ..< length s - 1]) of
                  Some i \<Rightarrow> i
                | None \<Rightarrow> length s - 4 - 1)"
    have "i < length s"
      if "find (\<lambda>i. RuneStart (s ! i)) (rev [length s - 4 ..< length s - 1]) = Some i" for i
      using find_in_set [OF that] by auto
    then have st: "start < length s"
      unfolding start_def by (auto simp: n split: option.splits)
    obtain r wd where d: "DecodeRuneInString (drop start s) = (r, wd)"
      by (cases "DecodeRuneInString (drop start s)")
    have "drop start s \<noteq> []" using st by simp
    from DecodeRuneInString_size [OF this] d have wd: "0 < wd" by simp
    have "DecodeLastRuneInString s = (if start + wd \<noteq> length s then (RuneError, 1) else (r, wd))"
      using False d unfolding DecodeLastRuneInString_def Let_def start_def [symmetric]
      by (simp add: n)
    then show ?thesis using wd by (auto simp: n)
  qed
qed

lemma DecodeRuneInString_shrinks:
  "DecodeRuneInString s = (r, wd) \<Longrightarrow> s \<noteq> [] \<Longrightarrow> length s - wd < length s"
  using DecodeRuneInString_size [of s] by simp

lemma DecodeLastRuneInString_shrinks:
  "DecodeLastRuneInString s = (r, wd) \<Longrightarrow> s \<noteq> [] \<Longrightarrow> wd \<le> length s \<and> 0 < wd"
  using DecodeLastRuneInString_size [of s] by simp

text \<open>
  The runes of a string in order, each with its bytes: what \<^verbatim>\<open>for i, r := range s\<close>
  goes through, and what \<^verbatim>\<open>utf8.RuneCountInString\<close> counts.
\<close>

function runes :: "string \<Rightarrow> (nat \<times> string) list" where
  "runes s =
     (if s = [] then []
      else case DecodeRuneInString s of (r, wd) \<Rightarrow> (r, take wd s) # runes (drop wd s))"
  by pat_completeness auto
termination
  by (relation "measure length") (auto dest: DecodeRuneInString_shrinks [OF sym])

declare runes.simps [simp del]

definition RuneCountInString :: "string \<Rightarrow> nat" where
  "RuneCountInString s = length (runes s)"

text \<open>
  \<^verbatim>\<open>unicode.IsSpace\<close>: in Latin-1 the six ASCII white-space characters, \<^verbatim>\<open>U+0085\<close> and
  \<^verbatim>\<open>U+00A0\<close>; beyond it the code points of the property \<^verbatim>\<open>White_Space\<close>.
\<close>

definition IsSpace :: "nat \<Rightarrow> bool" where
  "IsSpace r \<longleftrightarrow>
     r \<in> {0x09, 0x0A, 0x0B, 0x0C, 0x0D, 0x20, 0x85, 0xA0, 0x1680, 0x2028, 0x2029, 0x202F,
          0x205F, 0x3000}
     \<or> (0x2000 \<le> r \<and> r \<le> 0x200A)"

subsection \<open>strings.TrimSpace\<close>

text \<open>
  \<^verbatim>\<open>strings.TrimLeftFunc\<close> drops the leading runes that satisfy \<open>f\<close>.
  \<^verbatim>\<open>strings.TrimRightFunc\<close> goes backwards with \<^verbatim>\<open>DecodeLastRuneInString\<close>:
  \<open>lastIndexFunc f s\<close> is the byte index of the last rune that does not satisfy \<open>f\<close>
  (\<open>None\<close> for \<^verbatim>\<open>-1\<close>), and the string is cut after that rune. \<^verbatim>\<open>strings.TrimSpace\<close> is
  both with \<^verbatim>\<open>unicode.IsSpace\<close> (its fast path for ASCII returns the same string).
\<close>

definition TrimLeftFunc :: "(nat \<Rightarrow> bool) \<Rightarrow> string \<Rightarrow> string" where
  "TrimLeftFunc f s = concat (map snd (dropWhile (\<lambda>(r, bs). f r) (runes s)))"

function lastIndexFunc :: "(nat \<Rightarrow> bool) \<Rightarrow> string \<Rightarrow> nat option" where
  "lastIndexFunc f s =
     (if s = [] then None
      else case DecodeLastRuneInString s of
             (r, wd) \<Rightarrow>
               let i = length s - wd
               in if \<not> f r then Some i else lastIndexFunc f (take i s))"
  by pat_completeness auto
termination
  by (relation "measure (\<lambda>(f, s). length s)")
     (auto dest!: DecodeLastRuneInString_shrinks [OF sym])

declare lastIndexFunc.simps [simp del]

definition TrimRightFunc :: "(nat \<Rightarrow> bool) \<Rightarrow> string \<Rightarrow> string" where
  "TrimRightFunc f s =
     (case lastIndexFunc f s of
        None \<Rightarrow> []
      | Some i \<Rightarrow>
          if (of_char (s ! i) :: nat) \<ge> 0x80
          then take (i + snd (DecodeRuneInString (drop i s))) s
          else take (i + 1) s)"

definition TrimSpace :: "string \<Rightarrow> string" where
  "TrimSpace s = TrimRightFunc IsSpace (TrimLeftFunc IsSpace s)"

subsection \<open>padRight and spaces\<close>

text \<open>
  \<^verbatim>\<open>padRight\<close> appends the pad until the string is longer than \<open>length\<close> and cuts it
  there. With an empty pad and a short string the loop never ends: the result is an
  option, \<open>None\<close> for not returning.
\<close>

partial_function (option) padRight :: "string \<Rightarrow> string \<Rightarrow> nat \<Rightarrow> string option" where
  "padRight str pad len =
     (let str' = str @ pad
      in if length str' > len then Some (take len str') else padRight str' pad len)"

text \<open>
  Every caller passes the one-blank pad. \<open>padBlank\<close> is what \<^verbatim>\<open>padRight(str, " ", length)\<close>
  returns (lemma \<open>padRight_blank\<close> below); the encoders use it.
\<close>

definition padBlank :: "string \<Rightarrow> nat \<Rightarrow> string" where
  "padBlank str len = take len (str @ replicate (len - length str) (CHR '' ''))"

definition spaces :: "nat \<Rightarrow> string" where
  "spaces howMany = padBlank [] howMany"

subsection \<open>strconv.Atoi\<close>

definition parseUint :: "string \<Rightarrow> nat option" where
  "parseUint s = (if s \<noteq> [] \<and> list_all isDigit s then Some (digitsVal s) else None)"

text \<open>An optional sign followed by one or more decimal digits.\<close>

definition parseInt :: "string \<Rightarrow> int option" where
  "parseInt s =
     (case s of
        [] \<Rightarrow> None
      | c # cs \<Rightarrow>
          if c = CHR ''-'' then map_option (\<lambda>n. - int n) (parseUint cs)
          else if c = CHR ''+'' then map_option int (parseUint cs)
          else map_option int (parseUint s))"

text \<open>
  The value \<^verbatim>\<open>strconv.Atoi\<close> returns; the callers drop its error. A syntax error gives 0,
  a value out of range gives the nearest bound.
\<close>

definition Atoi :: "string \<Rightarrow> go_int" where
  "Atoi s =
     (case parseInt s of
        None \<Rightarrow> 0
      | Some n \<Rightarrow>
          if n > 2 ^ 63 - 1 then word_of_int (2 ^ 63 - 1)
          else if n < - (2 ^ 63) then word_of_int (- (2 ^ 63))
          else word_of_int n)"

subsection \<open>The verbs of fmt.Sprintf\<close>

text \<open>
  Padding to a width (0 for no width), which is measured in runes: to the right with
  blanks under the \<^verbatim>\<open>-\<close> flag, else to the left, with zeros under the \<^verbatim>\<open>0\<close> flag.
\<close>

definition fmtPad :: "bool \<Rightarrow> bool \<Rightarrow> nat \<Rightarrow> string \<Rightarrow> string" where
  "fmtPad left zeros wid s =
     (if left then s @ replicate (wid - RuneCountInString s) (CHR '' '')
      else replicate (wid - RuneCountInString s) (if zeros then CHR ''0'' else CHR '' '') @ s)"

text \<open>The precision of \<^verbatim>\<open>%s\<close> keeps the bytes of the first \<open>n\<close> runes.\<close>

definition truncateString :: "nat \<Rightarrow> string \<Rightarrow> string" where
  "truncateString n s = concat (map snd (take n (runes s)))"

text \<open>\<^verbatim>\<open>%s\<close> with flags, width and optional precision: the precision truncates.\<close>

definition fmtS :: "bool \<Rightarrow> bool \<Rightarrow> nat \<Rightarrow> nat option \<Rightarrow> string \<Rightarrow> string" where
  "fmtS left zeros wid prec s =
     fmtPad left zeros wid (case prec of None \<Rightarrow> s | Some p \<Rightarrow> truncateString p s)"

text \<open>
  \<^verbatim>\<open>%d\<close> with flags, width and optional precision. The precision is the least number
  of digits (precision 0 prints the value 0 as no digits); without a precision the
  \<^verbatim>\<open>0\<close> flag makes the width the number of digits, the sign included. Padding to the
  width is then with blanks.
\<close>

definition fmtD :: "bool \<Rightarrow> bool \<Rightarrow> nat \<Rightarrow> nat option \<Rightarrow> go_int \<Rightarrow> string" where
  "fmtD left zeros wid prec x =
     (let n = sint x;
          negative = n < 0;
          u = nat \<bar>n\<bar>;
          p = (case prec of
                 Some p \<Rightarrow> p
               | None \<Rightarrow> if zeros \<and> \<not> left \<and> wid > 0
                         then (if negative then wid - 1 else wid) else 0);
          ds = (if prec = Some 0 \<and> u = 0 then [] else digits u);
          body = replicate (p - length ds) (CHR ''0'') @ ds
      in fmtPad left False wid ((if negative then ''-'' else []) @ body))"

subsection \<open>Decimal amounts\<close>

text \<open>Rounding to the nearest integer, a tie to the even one.\<close>

definition roundBank :: "rat \<Rightarrow> int" where
  "roundBank x =
     (let f = \<lfloor>x\<rfloor>; d = x - of_int f
      in if d < 1 / 2 then f else if d > 1 / 2 then f + 1 else if even f then f else f + 1)"

text \<open>
  \<^verbatim>\<open>d.StringFixedBank(2)\<close>: the amount rounded to hundredths, printed with a sign only
  when the rounded value is negative, at least one integer digit and two fraction digits.
\<close>

definition StringFixedBank2 :: "Decimal \<Rightarrow> string" where
  "StringFixedBank2 d =
     (let v = roundBank (d * 100);
          str = digits (nat \<bar>v\<bar>);
          intPart = (if length str > 2 then take (length str - 2) str else ''0'');
          fractionalPart = (if length str > 2 then drop (length str - 2) str
                            else replicate (2 - length str) (CHR ''0'') @ str);
          number = intPart @ ''.'' @ fractionalPart
      in if v < 0 then ''-'' @ number else number)"

text \<open>\<^verbatim>\<open>strconv.ParseInt(s, 10, 32)\<close> for the exponent of the scientific notation.\<close>

definition parseInt32 :: "string \<Rightarrow> int option" where
  "parseInt32 s =
     (case parseInt s of
        None \<Rightarrow> None
      | Some n \<Rightarrow> if - (2 ^ 31) \<le> n \<and> n \<le> 2 ^ 31 - 1 then Some n else None)"

definition pow10 :: "int \<Rightarrow> rat" where
  "pow10 e = (if e \<ge> 0 then 10 ^ nat e else 1 / 10 ^ nat (- e))"

text \<open>
  The value \<^verbatim>\<open>decimal.NewFromString\<close> returns; the callers drop its error, and an error
  comes with \<^verbatim>\<open>Decimal{}\<close>. The text is cut at the first \<^verbatim>\<open>e\<close> or \<^verbatim>\<open>E\<close>, what
  follows being the exponent; at most one point is allowed; the digits around it, the
  sign in front, form the coefficient.
\<close>

definition NewFromString :: "string \<Rightarrow> Decimal" where
  "NewFromString value0 =
     (let isE = (\<lambda>c. c = CHR ''e'' \<or> c = CHR ''E'');
          mant = takeWhile (\<lambda>c. \<not> isE c) value0;
          rest = dropWhile (\<lambda>c. \<not> isE c) value0;
          expo = (if rest = [] then Some 0 else parseInt32 (tl rest))
      in case expo of
           None \<Rightarrow> 0
         | Some e \<Rightarrow>
             if length (filter (\<lambda>c. c = CHR ''.'') mant) > 1 then 0
             else
               (let ip = takeWhile (\<lambda>c. c \<noteq> CHR ''.'') mant;
                    fp = drop (Suc (length ip)) mant;
                    dexp = e - int (length fp)
                in (case parseInt (ip @ fp) of
                      None \<Rightarrow> 0
                    | Some c \<Rightarrow>
                        if dexp < - (2 ^ 31) \<or> dexp > 2 ^ 31 - 1 then 0
                        else of_int c * pow10 dexp)))"

subsection \<open>Calendar dates\<close>

text \<open>
  A \<^verbatim>\<open>time.Time\<close>, read in its own location: the calendar date, the nanoseconds since
  midnight, and whether the location is UTC. The zero value is 1 January of year 1,
  midnight UTC.
\<close>

record Time =
  year :: int
  month :: nat
  day :: nat
  nanos :: nat
  utc :: bool

definition zeroTime :: Time where
  "zeroTime = \<lparr>year = 1, month = 1, day = 1, nanos = 0, utc = True\<rparr>"

definition isLeap :: "int \<Rightarrow> bool" where
  "isLeap y \<longleftrightarrow> y mod 4 = 0 \<and> (y mod 100 \<noteq> 0 \<or> y mod 400 = 0)"

definition daysIn :: "nat \<Rightarrow> int \<Rightarrow> nat" where
  "daysIn m y =
     (if m = 2 then (if isLeap y then 29 else 28)
      else if m \<in> {4, 6, 9, 11} then 30 else 31)"

text \<open>\<^verbatim>\<open>appendInt\<close> of package time: a sign, then the digits filled with zeros to the width.\<close>

definition appendInt :: "int \<Rightarrow> nat \<Rightarrow> string" where
  "appendInt x width =
     (let ds = digits (nat \<bar>x\<bar>)
      in (if x < 0 then ''-'' else []) @ replicate (width - length ds) (CHR ''0'') @ ds)"

text \<open>\<^verbatim>\<open>t.Format("20060102")\<close>\<close>

definition Format :: "Time \<Rightarrow> string" where
  "Format t = appendInt (year t) 4 @ appendInt (int (month t)) 2 @ appendInt (int (day t)) 2"

text \<open>
  The value \<^verbatim>\<open>time.Parse("20060102", s)\<close> returns; the callers drop its error, and an
  error comes with the zero time. The text must be four digits of year, two of month,
  two of day and nothing else, and name a day that exists.
\<close>

definition Parse :: "string \<Rightarrow> Time" where
  "Parse s =
     (if length s = 8 \<and> list_all isDigit s then
        (let y = int (digitsVal (take 4 s));
             m = digitsVal (take 2 (drop 4 s));
             d = digitsVal (drop 6 s)
         in if 1 \<le> m \<and> m \<le> 12 \<and> 1 \<le> d \<and> d \<le> daysIn m y
            then \<lparr>year = y, month = m, day = d, nanos = 0, utc = True\<rparr>
            else zeroTime)
      else zeroTime)"

section \<open>The five record kinds\<close>

text \<open>
  The structs of \<^verbatim>\<open>txn.go\<close>. Field names carry the kind as a prefix, since several
  kinds have fields of the same name.
\<close>

record FileHeader =
  fh_recordType :: go_int
  fh_CustomerNumber :: string
  fh_CustomerName :: string
  fh_RemitterName :: string
  fh_FileCreated :: Time
  fh_ProcessingDate :: Time
  fh_Description :: string

record BatchHeader =
  bh_recordType :: go_int
  bh_BSBNumber :: string
  bh_AccountNumber :: string
  bh_AccountName :: string
  bh_TransactionDate :: Time
  bh_Amount :: Decimal
  bh_Indicator :: string

record Record =
  r_recordType :: go_int
  r_BSBNumber :: string
  r_AccountNumber :: string
  r_AccountName :: string
  r_TransactionDate :: Time
  r_Amount :: Decimal
  r_Indicator :: string
  r_TransactionCode :: string
  r_Description :: string
  r_ReferenceNumber :: go_int
  r_SecondaryReferenceNumber :: string
  r_ChequeNumber :: string

record FileTrailer =
  ft_recordType :: go_int
  ft_CustomerNumber :: string
  ft_CustomerName :: string
  ft_TotalDebitTransactions :: go_int
  ft_TotalCreditTransactions :: go_int
  ft_TotalDebitAmount :: Decimal
  ft_TotalCreditAmount :: Decimal

record BatchTrailer =
  bt_recordType :: go_int
  bt_BSBNumber :: string
  bt_AccountNumber :: string
  bt_AccountName :: string
  bt_TransactionDate :: Time
  bt_Amount :: Decimal
  bt_Indicator :: string
  bt_BatchType :: string
  bt_ReferenceNumber :: go_int
  bt_TotalDebitTransactions :: go_int
  bt_TotalCreditTransactions :: go_int
  bt_TotalDebitAmount :: Decimal
  bt_TotalCreditAmount :: Decimal

subsection \<open>Validity of a transaction record\<close>

text \<open>\<^verbatim>\<open>bsbNumberRegEx.MatchString\<close> for the expression \<^verbatim>\<open>^\d{3}-\d{3}$\<close>.\<close>

fun bsbNumberRegEx_MatchString :: "string \<Rightarrow> bool" where
  "bsbNumberRegEx_MatchString [a, b, c, d, e, f, g] \<longleftrightarrow>
     isDigit a \<and> isDigit b \<and> isDigit c \<and> d = CHR ''-'' \<and> isDigit e \<and> isDigit f \<and> isDigit g"
| "bsbNumberRegEx_MatchString _ \<longleftrightarrow> False"

definition IsValid :: "Record \<Rightarrow> bool" where
  "IsValid r \<longleftrightarrow>
     (if r_Indicator r = Credit \<or> r_Indicator r = Debit
      then bsbNumberRegEx_MatchString (r_BSBNumber r)
      else False)"

subsection \<open>Decoders\<close>

text \<open>
  A \<^verbatim>\<open>Read\<close> method takes the receiver and the line and returns the error and the
  receiver as the method leaves it.
\<close>

definition FileHeader_Read :: "FileHeader \<Rightarrow> string \<Rightarrow> error option \<times> FileHeader" where
  "FileHeader_Read h l =
     (if length l \<noteq> 171 \<and> length l \<noteq> 172 then (Some ErrBadFileHeader, h)
      else (None, h\<lparr>
        fh_recordType := Atoi (TrimSpace (slice l 0 1)),
        fh_CustomerNumber := TrimSpace (slice l 1 10),
        fh_CustomerName := TrimSpace (slice l 10 45),
        fh_RemitterName := TrimSpace (slice l 45 64),
        fh_FileCreated := Parse (TrimSpace (slice l 64 72)),
        fh_ProcessingDate := Parse (TrimSpace (slice l 72 80)),
        fh_Description := TrimSpace (slice l 80 100)\<rparr>))"

definition BatchHeader_Read :: "BatchHeader \<Rightarrow> string \<Rightarrow> error option \<times> BatchHeader" where
  "BatchHeader_Read h l =
     (if length l \<noteq> 171 \<and> length l \<noteq> 172 then (Some ErrBadBatchHeader, h)
      else (None, h\<lparr>
        bh_BSBNumber := TrimSpace (slice l 1 8),
        bh_AccountNumber := TrimSpace (slice l 8 17),
        bh_AccountName := TrimSpace (slice l 17 52),
        bh_TransactionDate := Parse (TrimSpace (slice l 52 60)),
        bh_Amount := NewFromString (TrimSpace (slice l 60 76)),
        bh_Indicator := TrimSpace (slice l 76 78)\<rparr>))"

definition Record_Read :: "Record \<Rightarrow> string \<Rightarrow> error option \<times> Record" where
  "Record_Read r l =
     (if length l \<noteq> 169 \<and> length l \<noteq> 170 then (Some ErrBadRecord, r)
      else
        let r' = r\<lparr>
          r_recordType := Atoi (TrimSpace (slice l 0 1)),
          r_BSBNumber := TrimSpace (slice l 1 8),
          r_AccountNumber := TrimSpace (slice l 8 17),
          r_AccountName := TrimSpace (slice l 17 52),
          r_TransactionDate := Parse (TrimSpace (slice l 52 60)),
          r_Amount := NewFromString (TrimSpace (slice l 60 76)),
          r_Indicator := TrimSpace (slice l 76 78),
          r_TransactionCode := TrimSpace (slice l 78 80),
          r_Description := TrimSpace (slice l 80 120),
          r_ReferenceNumber := Atoi (TrimSpace (slice l 120 130)),
          r_SecondaryReferenceNumber := TrimSpace (slice l 130 140),
          r_ChequeNumber := TrimSpace (slice l 140 148)\<rparr>
        in if \<not> IsValid r' then (Some ErrInvalidRecord, r') else (None, r'))"

definition FileTrailer_Read :: "FileTrailer \<Rightarrow> string \<Rightarrow> error option \<times> FileTrailer" where
  "FileTrailer_Read t l =
     (if length l \<noteq> 171 \<and> length l \<noteq> 172 then (Some ErrBadFileTrailer, t)
      else (None, t\<lparr>
        ft_recordType := Atoi (TrimSpace (slice l 0 1)),
        ft_CustomerNumber := TrimSpace (slice l 1 9),
        ft_CustomerName := TrimSpace (slice l 9 44),
        ft_TotalDebitTransactions := Atoi (TrimSpace (slice l 44 50)),
        ft_TotalCreditTransactions := Atoi (TrimSpace (slice l 50 56)),
        ft_TotalDebitAmount := NewFromString (TrimSpace (slice l 56 72)),
        ft_TotalCreditAmount := NewFromString (TrimSpace (slice l 72 88))\<rparr>))"

definition BatchTrailer_Read :: "BatchTrailer \<Rightarrow> string \<Rightarrow> error option \<times> BatchTrailer" where
  "BatchTrailer_Read t l =
     (if length l \<noteq> 171 \<and> length l \<noteq> 172 then (Some ErrBadBatchTrailer, t)
      else (None, t\<lparr>
        bt_recordType := Atoi (TrimSpace (slice l 0 1)),
        bt_BSBNumber := TrimSpace (slice l 1 8),
        bt_AccountNumber := TrimSpace (slice l 8 17),
        bt_AccountName := TrimSpace (slice l 17 52),
        bt_TransactionDate := Parse (TrimSpace (slice l 52 60)),
        bt_Amount := NewFromString (TrimSpace (slice l 60 76)),
        bt_Indicator := TrimSpace (slice l 76 78),
        bt_BatchType := TrimSpace (slice l 78 80),
        bt_ReferenceNumber := Atoi (TrimSpace (slice l 80 86)),
        bt_TotalDebitTransactions := Atoi (TrimSpace (slice l 86 92)),
        bt_TotalCreditTransactions := Atoi (TrimSpace (slice l 92 98)),
        bt_TotalDebitAmount := NewFromString (TrimSpace (slice l 98 114)),
        bt_TotalCreditAmount := NewFromString (TrimSpace (slice l 114 130))\<rparr>))"

subsection \<open>Encoders\<close>

text \<open>
  A \<^verbatim>\<open>Write\<close> method returns the bytes it hands to the \<^verbatim>\<open>io.Writer\<close>. Each verb of the
  format string is one factor of the concatenation, in order.
\<close>

definition BatchTrailer_Write :: "BatchTrailer \<Rightarrow> string" where
  "BatchTrailer_Write t =
     padBlank
       (fmtD False False 0 None (bt_recordType t)
        @ fmtS False False 7 (Some 7) (bt_BSBNumber t)
        @ fmtS False False 9 (Some 9) (bt_AccountNumber t)
        @ fmtS True False 35 (Some 35) (bt_AccountName t)
        @ fmtS False False 8 (Some 8) (Format (bt_TransactionDate t))
        @ fmtS False False 16 (Some 16) (StringFixedBank2 (bt_Amount t))
        @ fmtS False False 2 None (bt_Indicator t)
        @ fmtS False False 2 None (bt_BatchType t)
        @ fmtD False True 6 (Some 6) (bt_ReferenceNumber t)
        @ fmtD False False 6 (Some 1) (bt_TotalDebitTransactions t)
        @ fmtD False False 6 (Some 1) (bt_TotalCreditTransactions t)
        @ fmtS False False 16 (Some 16) (StringFixedBank2 (bt_TotalDebitAmount t))
        @ fmtS False False 16 (Some 16) (StringFixedBank2 (bt_TotalCreditAmount t))
        @ fmtS False False 0 None (spaces 40))
       170"

definition FileTrailer_Write :: "FileTrailer \<Rightarrow> string" where
  "FileTrailer_Write t =
     padBlank
       (fmtD False False 0 None (ft_recordType t)
        @ fmtS False True 8 (Some 8) (ft_CustomerNumber t)
        @ fmtS True False 35 (Some 35) (ft_CustomerName t)
        @ fmtD True False 6 (Some 1) (ft_TotalDebitTransactions t)
        @ fmtD True False 6 (Some 1) (ft_TotalCreditTransactions t)
        @ fmtS True False 16 (Some 16) (StringFixedBank2 (ft_TotalDebitAmount t))
        @ fmtS True False 16 (Some 16) (StringFixedBank2 (ft_TotalCreditAmount t))
        @ fmtS False False 0 None (spaces 82))
       170"

definition FileHeader_Write :: "FileHeader \<Rightarrow> string" where
  "FileHeader_Write h =
     padBlank
       (fmtD False False 0 None (fh_recordType h)
        @ fmtS False True 8 (Some 8) (fh_CustomerNumber h)
        @ fmtS True False 35 (Some 35) (fh_CustomerName h)
        @ fmtS True False 20 (Some 20) (fh_RemitterName h)
        @ fmtS False False 8 (Some 8) (Format (fh_FileCreated h))
        @ fmtS False False 8 (Some 8) (Format (fh_ProcessingDate h))
        @ fmtS False False 20 (Some 20) (fh_Description h)
        @ fmtS False False 0 None (spaces 70))
       170"

definition BatchHeader_Write :: "BatchHeader \<Rightarrow> string" where
  "BatchHeader_Write h =
     padBlank
       (''1''
        @ fmtS True False 7 (Some 7) (bh_BSBNumber h)
        @ fmtS True False 9 (Some 9) (bh_AccountNumber h)
        @ fmtS True False 35 (Some 35) (bh_AccountName h)
        @ fmtS False False 8 (Some 8) (Format (bh_TransactionDate h))
        @ fmtS False False 16 (Some 16) (StringFixedBank2 (bh_Amount h))
        @ fmtS False False 2 (Some 2) (bh_Indicator h)
        @ fmtS False False 0 None (spaces 92))
       170"

definition Record_Write :: "Record \<Rightarrow> string" where
  "Record_Write r =
     padBlank
       (''2''
        @ fmtS False False 7 (Some 7) (r_BSBNumber r)
        @ fmtS False False 9 (Some 9) (r_AccountNumber r)
        @ fmtS True False 35 (Some 35) (r_AccountName r)
        @ fmtS False False 8 (Some 8) (Format (r_TransactionDate r))
        @ fmtS False False 16 (Some 16) (StringFixedBank2 (r_Amount r))
        @ fmtS False False 2 (Some 2) (r_Indicator r)
        @ fmtS False False 2 (Some 2) (r_TransactionCode r)
        @ fmtS True False 40 (Some 40) (r_Description r)
        @ fmtD True False 10 (Some 1) (r_ReferenceNumber r)
        @ fmtS True False 10 (Some 10) (r_SecondaryReferenceNumber r)
        @ fmtS True False 8 (Some 8) (r_ChequeNumber r)
        @ fmtS False False 0 None (spaces 20))
       168"

section \<open>Batches and the writer\<close>

record Batch =
  b_BatchHeader :: BatchHeader
  b_Records :: "Record list"
  b_BatchTrailer :: BatchTrailer

text \<open>A line of the standard logger: the warning of \<^verbatim>\<open>Writer.Write\<close> about an indicator.\<close>

datatype log_line = UnknownTransactionType string nat

text \<open>
  The \<^verbatim>\<open>Writer\<close>. The two pointer fields are the values they point to; \<open>w_wr\<close> is the
  sequence of bytes handed to the buffered writer so far (errors of the underlying sink
  are outside the model), and \<open>w_log\<close> is what \<^verbatim>\<open>log.Println\<close> has printed.
\<close>

record Writer =
  w_OmitBatchTotals :: bool
  w_CRLFLineEndings :: bool
  w_FileHeader :: FileHeader
  w_FileTrailer :: FileTrailer
  w_Batch :: "Batch list"
  w_wr :: string
  w_log :: "log_line list"

definition zeroBatchHeader :: BatchHeader where
  "zeroBatchHeader = \<lparr>bh_recordType = 0, bh_BSBNumber = [], bh_AccountNumber = [],
     bh_AccountName = [], bh_TransactionDate = zeroTime, bh_Amount = 0, bh_Indicator = []\<rparr>"

definition zeroBatchTrailer :: BatchTrailer where
  "zeroBatchTrailer = \<lparr>bt_recordType = 0, bt_BSBNumber = [], bt_AccountNumber = [],
     bt_AccountName = [], bt_TransactionDate = zeroTime, bt_Amount = 0, bt_Indicator = [],
     bt_BatchType = [], bt_ReferenceNumber = 0, bt_TotalDebitTransactions = 0,
     bt_TotalCreditTransactions = 0, bt_TotalDebitAmount = 0, bt_TotalCreditAmount = 0\<rparr>"

definition zeroRecord :: Record where
  "zeroRecord = \<lparr>r_recordType = 0, r_BSBNumber = [], r_AccountNumber = [],
     r_AccountName = [], r_TransactionDate = zeroTime, r_Amount = 0, r_Indicator = [],
     r_TransactionCode = [], r_Description = [], r_ReferenceNumber = 0,
     r_SecondaryReferenceNumber = [], r_ChequeNumber = []\<rparr>"

definition zeroFileHeader :: FileHeader where
  "zeroFileHeader = \<lparr>fh_recordType = 0, fh_CustomerNumber = [], fh_CustomerName = [],
     fh_RemitterName = [], fh_FileCreated = zeroTime, fh_ProcessingDate = zeroTime,
     fh_Description = []\<rparr>"

definition zeroFileTrailer :: FileTrailer where
  "zeroFileTrailer = \<lparr>ft_recordType = 0, ft_CustomerNumber = [], ft_CustomerName = [],
     ft_TotalDebitTransactions = 0, ft_TotalCreditTransactions = 0,
     ft_TotalDebitAmount = 0, ft_TotalCreditAmount = 0\<rparr>"

definition zeroBatch :: Batch where
  "zeroBatch = \<lparr>b_BatchHeader = zeroBatchHeader, b_Records = [],
     b_BatchTrailer = zeroBatchTrailer\<rparr>"

text \<open>\<^verbatim>\<open>NewBatch\<close> and \<^verbatim>\<open>NewWriter\<close>; the argument is the reading of \<^verbatim>\<open>time.Now()\<close>.\<close>

definition NewBatch :: "Time \<Rightarrow> Batch" where
  "NewBatch now =
     \<lparr>b_BatchHeader = zeroBatchHeader\<lparr>bh_recordType := 1, bh_TransactionDate := now\<rparr>,
      b_Records = [],
      b_BatchTrailer = zeroBatchTrailer\<lparr>bt_recordType := 7, bt_TransactionDate := now,
        bt_BatchType := BatchPAY\<rparr>\<rparr>"

definition NewWriter :: "Time \<Rightarrow> Writer" where
  "NewWriter now =
     \<lparr>w_OmitBatchTotals = False,
      w_CRLFLineEndings = False,
      w_FileHeader = zeroFileHeader\<lparr>fh_recordType := 0, fh_FileCreated := now,
        fh_ProcessingDate := now, fh_Description := ''ACCOUNT TRANSACTIONS''\<rparr>,
      w_FileTrailer = zeroFileTrailer\<lparr>ft_recordType := 9\<rparr>,
      w_Batch = [NewBatch now],
      w_wr = [],
      w_log = []\<rparr>"

text \<open>Handing bytes to \<^verbatim>\<open>w.wr\<close>, and the line ending the writer is set to.\<close>

definition emit :: "string \<Rightarrow> Writer \<Rightarrow> Writer" where
  "emit s w = w\<lparr>w_wr := w_wr w @ s\<rparr>"

definition eol :: "Writer \<Rightarrow> string" where
  "eol w = (if w_CRLFLineEndings w then [CHR 0x0D] else []) @ [CHR 0x0A]"

text \<open>The four counters of one batch, declared afresh for every batch.\<close>

record BatchTotals =
  batchDebitCounter :: go_int
  batchCreditCounter :: go_int
  batchDebitTx :: Decimal
  batchCreditTx :: Decimal

definition zeroTotals :: BatchTotals where
  "zeroTotals = \<lparr>batchDebitCounter = 0, batchCreditCounter = 0,
     batchDebitTx = 0, batchCreditTx = 0\<rparr>"

text \<open>
  The switch on the indicator of a record that passed the validity check (lines 96 to
  112): the file trailer and the counters of the batch grow together.
\<close>

definition accumulate :: "Writer \<Rightarrow> BatchTotals \<Rightarrow> nat \<Rightarrow> Record \<Rightarrow> Writer \<times> BatchTotals" where
  "accumulate w c i r =
     (if \<not> w_OmitBatchTotals w then
        (if r_Indicator r = Debit then
           (w\<lparr>w_FileTrailer := (w_FileTrailer w)\<lparr>
                ft_TotalDebitAmount := ft_TotalDebitAmount (w_FileTrailer w) + r_Amount r,
                ft_TotalDebitTransactions := ft_TotalDebitTransactions (w_FileTrailer w) + 1\<rparr>\<rparr>,
            c\<lparr>batchDebitCounter := batchDebitCounter c + 1,
              batchDebitTx := batchDebitTx c + r_Amount r\<rparr>)
         else if r_Indicator r = Credit then
           (w\<lparr>w_FileTrailer := (w_FileTrailer w)\<lparr>
                ft_TotalCreditAmount := ft_TotalCreditAmount (w_FileTrailer w) + r_Amount r,
                ft_TotalCreditTransactions := ft_TotalCreditTransactions (w_FileTrailer w) + 1\<rparr>\<rparr>,
            c\<lparr>batchCreditCounter := batchCreditCounter c + 1,
              batchCreditTx := batchCreditTx c + r_Amount r\<rparr>)
         else (w\<lparr>w_log := w_log w @ [UnknownTransactionType (r_Indicator r) i]\<rparr>, c))
      else (w, c))"

text \<open>
  The loop over the records of a batch (lines 91 to 120), from record index \<open>i\<close> on. An
  invalid record returns at once, with the writer as it is at that point.
\<close>

fun writeRecords ::
  "Writer \<Rightarrow> BatchTotals \<Rightarrow> nat \<Rightarrow> Record list \<Rightarrow> error option \<times> Writer \<times> BatchTotals" where
  "writeRecords w c i [] = (None, w, c)"
| "writeRecords w c i (r # rs) =
     (if \<not> IsValid r then (Some (Errorf_InvalidRecord i), w, c)
      else
        case accumulate w c i r of
          (w1, c1) \<Rightarrow> writeRecords (emit (Record_Write r @ eol w1) w1) c1 (Suc i) rs)"

text \<open>
  The trailer of the loop's copy of the batch after the assignments of lines 121 to 137,
  as it is handed to \<^verbatim>\<open>BatchTrailer.Write\<close>.
\<close>

definition closeBatch :: "Time \<Rightarrow> nat \<Rightarrow> Batch \<Rightarrow> BatchTotals \<Rightarrow> BatchTrailer" where
  "closeBatch now k batch c =
     (let batchAmount = batchCreditTx c - batchDebitTx c;
          indicator = (if sgn batchAmount < 0 then ''DR'' else ''CR'')
      in (b_BatchTrailer batch)\<lparr>
           bt_BSBNumber := bh_BSBNumber (b_BatchHeader batch),
           bt_AccountNumber := bh_AccountNumber (b_BatchHeader batch),
           bt_AccountName := bh_AccountName (b_BatchHeader batch),
           bt_TransactionDate := now,
           bt_Amount := \<bar>batchAmount\<bar>,
           bt_Indicator := indicator,
           bt_BatchType := BatchTXN,
           bt_ReferenceNumber := of_nat k,
           bt_TotalDebitTransactions := batchDebitCounter c,
           bt_TotalCreditTransactions := batchCreditCounter c,
           bt_TotalDebitAmount := batchDebitTx c,
           bt_TotalCreditAmount := batchCreditTx c\<rparr>)"

text \<open>
  One round of the loop over the batches (lines 81 to 143), for the batch at index \<open>k\<close>.
  \<open>now k\<close> is the reading of \<^verbatim>\<open>time.Now()\<close> in that round. The trailer is set on the
  loop variable, a copy: \<open>w_Batch\<close> is not touched.
\<close>

definition writeBatch :: "(nat \<Rightarrow> Time) \<Rightarrow> Writer \<Rightarrow> nat \<Rightarrow> Batch \<Rightarrow> error option \<times> Writer" where
  "writeBatch now w k batch =
     (let w1 = emit (BatchHeader_Write (b_BatchHeader batch) @ eol w) w
      in case writeRecords w1 zeroTotals 0 (b_Records batch) of
           (Some e, w2, c) \<Rightarrow> (Some e, w2)
         | (None, w2, c) \<Rightarrow>
             (None, emit (BatchTrailer_Write (closeBatch (now k) k batch c) @ eol w2) w2))"

fun writeBatches :: "(nat \<Rightarrow> Time) \<Rightarrow> Writer \<Rightarrow> nat \<Rightarrow> Batch list \<Rightarrow> error option \<times> Writer" where
  "writeBatches now w k [] = (None, w)"
| "writeBatches now w k (batch # bs) =
     (case writeBatch now w k batch of
        (Some e, w') \<Rightarrow> (Some e, w')
      | (None, w') \<Rightarrow> writeBatches now w' (Suc k) bs)"

text \<open>\<^verbatim>\<open>Writer.Write\<close>: the error returned and the writer as the call leaves it.\<close>

definition Writer_Write :: "(nat \<Rightarrow> Time) \<Rightarrow> Writer \<Rightarrow> error option \<times> Writer" where
  "Writer_Write now w =
     (if length (w_Batch w) < 1 then (Some ErrInsufficientBatches, w)
      else
        let w1 = emit (FileHeader_Write (w_FileHeader w) @ eol w) w
        in case writeBatches now w1 0 (w_Batch w1) of
             (Some e, w2) \<Rightarrow> (Some e, w2)
           | (None, w2) \<Rightarrow> (None, emit (FileTrailer_Write (w_FileTrailer w2) @ eol w2) w2))"

section \<open>The reader\<close>

text \<open>
  The \<^verbatim>\<open>Reader\<close>; \<open>rd_r\<close> is the input not yet consumed. Indexing the empty batch list
  panics; the two places that index it are told apart.
\<close>

record Reader =
  rd_FileHeader :: FileHeader
  rd_Batch :: "Batch list"
  rd_FileTrailer :: FileTrailer
  rd_r :: string

datatype panic = IndexOutOfRange_Records | IndexOutOfRange_Trailer

definition NewReader :: "string \<Rightarrow> Reader" where
  "NewReader inp = \<lparr>rd_FileHeader = zeroFileHeader, rd_Batch = [],
     rd_FileTrailer = zeroFileTrailer, rd_r = inp\<rparr>"

text \<open>
  \<^verbatim>\<open>ReadString('\n')\<close>: the line up to and including the first line feed, or all that is
  left when there is none, and the input after it.
\<close>

definition ReadString :: "string \<Rightarrow> string \<times> string" where
  "ReadString inp =
     (let pre = takeWhile (\<lambda>c. c \<noteq> CHR 0x0A) inp
      in if length pre < length inp then (pre @ [CHR 0x0A], drop (Suc (length pre)) inp)
         else (inp, []))"

definition readRecordOrHeaderOrTrailer :: "Reader \<Rightarrow> panic + (error option \<times> Reader)" where
  "readRecordOrHeaderOrTrailer r =
     (case rd_r r of
        [] \<Rightarrow> Inr (Some EOF, r)
      | b # _ \<Rightarrow>
          (case ReadString (rd_r r) of (line, rest) \<Rightarrow>
             let r1 = r\<lparr>rd_r := rest\<rparr>
             in if b = CHR ''0'' then
                  (case FileHeader_Read (rd_FileHeader r1) line of
                     (err, h) \<Rightarrow> Inr (err, r1\<lparr>rd_FileHeader := h\<rparr>))
                else if b = CHR ''1'' then
                  (case BatchHeader_Read (b_BatchHeader zeroBatch) line of
                     (err, h) \<Rightarrow>
                       if err = None
                       then Inr (err, r1\<lparr>rd_Batch := rd_Batch r1 @ [zeroBatch\<lparr>b_BatchHeader := h\<rparr>]\<rparr>)
                       else Inr (err, r1))
                else if b = CHR ''2'' then
                  (case Record_Read zeroRecord line of
                     (err, record) \<Rightarrow>
                       if err = None then
                         (if IsValid record then
                            (if rd_Batch r1 = [] then Inl IndexOutOfRange_Records
                             else
                               let n = length (rd_Batch r1) - 1;
                                   cur = rd_Batch r1 ! n
                               in Inr (err, r1\<lparr>rd_Batch := (rd_Batch r1)
                                    [n := cur\<lparr>b_Records := b_Records cur @ [record]\<rparr>]\<rparr>))
                          else Inr (Some ErrInvalidRecord, r1))
                       else Inr (err, r1))
                else if b = CHR ''7'' then
                  (case BatchTrailer_Read (b_BatchTrailer zeroBatch) line of
                     (err, t) \<Rightarrow>
                       if err = None then
                         (if rd_Batch r1 = [] then Inl IndexOutOfRange_Trailer
                          else
                            let n = length (rd_Batch r1) - 1
                            in Inr (err, r1\<lparr>rd_Batch := (rd_Batch r1)
                                 [n := (rd_Batch r1 ! n)\<lparr>b_BatchTrailer := t\<rparr>]\<rparr>))
                       else Inr (err, r1))
                else if b = CHR ''9'' then
                  (case FileTrailer_Read (rd_FileTrailer r1) line of
                     (err, t) \<Rightarrow> Inr (err, r1\<lparr>rd_FileTrailer := t\<rparr>))
                else Inr (Some ErrUnexpectedRecordType, r1)))"

lemma ReadString_shorter:
  "inp \<noteq> [] \<Longrightarrow> ReadString inp = (line, rest) \<Longrightarrow> length rest < length inp"
  by (auto simp: ReadString_def Let_def split: if_splits)

lemma readRecordOrHeaderOrTrailer_consumes:
  "readRecordOrHeaderOrTrailer r = Inr (None, r') \<Longrightarrow> length (rd_r r') < length (rd_r r)"
  unfolding readRecordOrHeaderOrTrailer_def
  by (auto simp: Let_def split: list.splits prod.splits if_splits dest!: ReadString_shorter [rotated])

text \<open>
  \<^verbatim>\<open>ReadAll\<close>: the batches and the error returned, with the reader as the call leaves
  it. Each round that goes on has consumed a line, so the loop ends.
\<close>

function ReadAll :: "Reader \<Rightarrow> panic + (Batch list \<times> error option \<times> Reader)" where
  "ReadAll r =
     (case readRecordOrHeaderOrTrailer r of
        Inl p \<Rightarrow> Inl p
      | Inr (err, r') \<Rightarrow>
          if err = Some EOF then Inr (rd_Batch r', None, r')
          else if err \<noteq> None then Inr (rd_Batch r', err, r')
          else ReadAll r')"
  by pat_completeness auto
termination
  by (relation "measure (\<lambda>r. length (rd_r r))")
     (auto dest: readRecordOrHeaderOrTrailer_consumes)

declare ReadAll.simps [simp del]

section \<open>What a run of the writer amounts to\<close>

text \<open>
  The notions the statements about the writer are written in: the debit and the credit
  records of a list, the sum of their amounts and their number as a Go \<^verbatim>\<open>int\<close>; the
  totals a file trailer and the counters of a batch reach over a list of valid records;
  the lines of a batch (header, records, trailer) and of a list of batches, in the order
  of the file; a batch all of whose records pass \<open>IsValid\<close>; and the records one pass of
  \<^verbatim>\<open>Write\<close> counts (none when \<^verbatim>\<open>OmitBatchTotals\<close> is set).
\<close>

definition debits :: "Record list \<Rightarrow> Record list" where
  "debits rs = filter (\<lambda>r. r_Indicator r = Debit) rs"

definition credits :: "Record list \<Rightarrow> Record list" where
  "credits rs = filter (\<lambda>r. r_Indicator r = Credit) rs"

definition amounts :: "Record list \<Rightarrow> Decimal" where
  "amounts rs = sum_list (map r_Amount rs)"

definition count :: "Record list \<Rightarrow> go_int" where
  "count rs = of_nat (length rs)"

definition recordLines :: "string \<Rightarrow> Record list \<Rightarrow> string" where
  "recordLines nl rs = concat (map (\<lambda>r. Record_Write r @ nl) rs)"

definition tallyFile :: "bool \<Rightarrow> Record list \<Rightarrow> FileTrailer \<Rightarrow> FileTrailer" where
  "tallyFile omit rs t =
     (if omit then t
      else t\<lparr>ft_TotalDebitTransactions := ft_TotalDebitTransactions t + count (debits rs),
             ft_TotalCreditTransactions := ft_TotalCreditTransactions t + count (credits rs),
             ft_TotalDebitAmount := ft_TotalDebitAmount t + amounts (debits rs),
             ft_TotalCreditAmount := ft_TotalCreditAmount t + amounts (credits rs)\<rparr>)"

definition tallyBatch :: "bool \<Rightarrow> Record list \<Rightarrow> BatchTotals \<Rightarrow> BatchTotals" where
  "tallyBatch omit rs c =
     (if omit then c
      else c\<lparr>batchDebitCounter := batchDebitCounter c + count (debits rs),
             batchCreditCounter := batchCreditCounter c + count (credits rs),
             batchDebitTx := batchDebitTx c + amounts (debits rs),
             batchCreditTx := batchCreditTx c + amounts (credits rs)\<rparr>)"

definition batchOutput :: "(nat \<Rightarrow> Time) \<Rightarrow> bool \<Rightarrow> string \<Rightarrow> nat \<Rightarrow> Batch \<Rightarrow> string" where
  "batchOutput now omit nl k batch =
     BatchHeader_Write (b_BatchHeader batch) @ nl
     @ recordLines nl (b_Records batch)
     @ BatchTrailer_Write
         (closeBatch (now k) k batch (tallyBatch omit (b_Records batch) zeroTotals)) @ nl"

fun batchesOutput :: "(nat \<Rightarrow> Time) \<Rightarrow> bool \<Rightarrow> string \<Rightarrow> nat \<Rightarrow> Batch list \<Rightarrow> string" where
  "batchesOutput now omit nl k [] = []"
| "batchesOutput now omit nl k (batch # bs) =
     batchOutput now omit nl k batch @ batchesOutput now omit nl (Suc k) bs"

definition allRecords :: "Batch list \<Rightarrow> Record list" where
  "allRecords bs = concat (map b_Records bs)"

definition validBatch :: "Batch \<Rightarrow> bool" where
  "validBatch batch \<longleftrightarrow> list_all IsValid (b_Records batch)"

definition passRecords :: "Writer \<Rightarrow> Record list" where
  "passRecords w = (if w_OmitBatchTotals w then [] else allRecords (w_Batch w))"

text \<open>
  The batch trailer written out in full from the sums over the records of the batch: the
  record type is the one the batch holds, the account is that of the batch header, the
  date is \<open>t\<close>, the reference number is \<open>k\<close>, the totals are the numbers and the sums of
  the debit and of the credit records (of no record when \<open>omit\<close> is set), the amount is the
  absolute difference of the two sums and the indicator tells which is larger. Then these
  trailers for the batches \<open>bs\<close>, the first at index \<open>k\<close>, with the clock \<open>now\<close>; the lines
  of a list of batches when the trailers are given; and a trailer whose four totals are
  zero.
\<close>

definition sumTrailer :: "Time \<Rightarrow> bool \<Rightarrow> nat \<Rightarrow> Batch \<Rightarrow> BatchTrailer" where
  "sumTrailer t omit k batch =
     (let rs = (if omit then [] else b_Records batch)
      in \<lparr>bt_recordType = bt_recordType (b_BatchTrailer batch),
          bt_BSBNumber = bh_BSBNumber (b_BatchHeader batch),
          bt_AccountNumber = bh_AccountNumber (b_BatchHeader batch),
          bt_AccountName = bh_AccountName (b_BatchHeader batch),
          bt_TransactionDate = t,
          bt_Amount = \<bar>amounts (credits rs) - amounts (debits rs)\<bar>,
          bt_Indicator = (if amounts (debits rs) \<le> amounts (credits rs) then ''CR'' else ''DR''),
          bt_BatchType = BatchTXN,
          bt_ReferenceNumber = of_nat k,
          bt_TotalDebitTransactions = count (debits rs),
          bt_TotalCreditTransactions = count (credits rs),
          bt_TotalDebitAmount = amounts (debits rs),
          bt_TotalCreditAmount = amounts (credits rs)\<rparr>)"

definition trailersFrom :: "(nat \<Rightarrow> Time) \<Rightarrow> bool \<Rightarrow> nat \<Rightarrow> Batch list \<Rightarrow> BatchTrailer list" where
  "trailersFrom now omit k bs =
     map (\<lambda>(i, batch). sumTrailer (now i) omit i batch) (enumerate k bs)"

definition batchesWith :: "string \<Rightarrow> Batch list \<Rightarrow> BatchTrailer list \<Rightarrow> string" where
  "batchesWith nl bs ts =
     concat (map (\<lambda>(batch, t).
       BatchHeader_Write (b_BatchHeader batch) @ nl
       @ recordLines nl (b_Records batch)
       @ BatchTrailer_Write t @ nl) (zip bs ts))"

definition zeroTotalsTrailer :: "BatchTrailer \<Rightarrow> bool" where
  "zeroTotalsTrailer t \<longleftrightarrow>
     bt_TotalDebitTransactions t = 0 \<and> bt_TotalCreditTransactions t = 0
     \<and> bt_TotalDebitAmount t = 0 \<and> bt_TotalCreditAmount t = 0"

definition zeroTotalsFile :: "FileTrailer \<Rightarrow> bool" where
  "zeroTotalsFile t \<longleftrightarrow>
     ft_TotalDebitTransactions t = 0 \<and> ft_TotalCreditTransactions t = 0
     \<and> ft_TotalDebitAmount t = 0 \<and> ft_TotalCreditAmount t = 0"

section \<open>Well-formed values\<close>

text \<open>
  What a value must satisfy to survive the columns: a text is made of ASCII bytes (the
  verbs lay a column out in runes, \<^verbatim>\<open>Read\<close> cuts it in bytes), has no white space at
  its ends (\<^verbatim>\<open>TrimSpace\<close> would remove it) and is no longer than its column; an integer
  is not negative and has no more digits than its column; an amount is a non-negative
  multiple of 0.01 below \<open>10 ^ 13\<close>, which \<^verbatim>\<open>StringFixedBank(2)\<close> prints in at most 16
  bytes; a date is a day of the calendar in the years 0 to 9999, at midnight UTC, as
  \<^verbatim>\<open>time.Parse\<close> returns it.
\<close>

definition isASCII :: "string \<Rightarrow> bool" where
  "isASCII s \<longleftrightarrow> list_all (\<lambda>c. (of_char c :: nat) < 0x80) s"

definition spaceByte :: "char \<Rightarrow> bool" where
  "spaceByte c \<longleftrightarrow> IsSpace (of_char c)"

definition trimmed :: "string \<Rightarrow> bool" where
  "trimmed s \<longleftrightarrow> s = [] \<or> (\<not> spaceByte (hd s) \<and> \<not> spaceByte (last s))"

definition wfText :: "nat \<Rightarrow> string \<Rightarrow> bool" where
  "wfText w s \<longleftrightarrow> length s \<le> w \<and> isASCII s \<and> trimmed s"

definition wfInt :: "nat \<Rightarrow> go_int \<Rightarrow> bool" where
  "wfInt w x \<longleftrightarrow> 0 \<le> sint x \<and> sint x < 10 ^ w"

definition wfAmount :: "Decimal \<Rightarrow> bool" where
  "wfAmount d \<longleftrightarrow> 0 \<le> d \<and> d < 10 ^ 13 \<and> of_int \<lfloor>d * 100\<rfloor> = d * 100"

definition wfDate :: "Time \<Rightarrow> bool" where
  "wfDate t \<longleftrightarrow> 0 \<le> year t \<and> year t \<le> 9999 \<and> 1 \<le> month t \<and> month t \<le> 12
     \<and> 1 \<le> day t \<and> day t \<le> daysIn (month t) (year t) \<and> nanos t = 0 \<and> utc t"

text \<open>The \<^verbatim>\<open>%08.8s\<close> column: the text filled with zeros on the left to 8 bytes.\<close>

definition zeroFilled :: "string \<Rightarrow> string" where
  "zeroFilled s = replicate (8 - length s) (CHR ''0'') @ s"

text \<open>
  The five kinds. The widths are those of the format strings of the \<^verbatim>\<open>Write\<close> methods
  (for the remitter name of the File Header 20, one more than \<^verbatim>\<open>Read\<close> takes).
\<close>

definition wfFileHeader :: "FileHeader \<Rightarrow> bool" where
  "wfFileHeader h \<longleftrightarrow>
     wfInt 1 (fh_recordType h)
     \<and> wfText 8 (fh_CustomerNumber h) \<and> wfText 35 (fh_CustomerName h)
     \<and> wfText 20 (fh_RemitterName h)
     \<and> wfDate (fh_FileCreated h) \<and> wfDate (fh_ProcessingDate h)
     \<and> wfText 20 (fh_Description h)"

definition wfBatchHeader :: "BatchHeader \<Rightarrow> bool" where
  "wfBatchHeader h \<longleftrightarrow>
     wfText 7 (bh_BSBNumber h) \<and> wfText 9 (bh_AccountNumber h) \<and> wfText 35 (bh_AccountName h)
     \<and> wfDate (bh_TransactionDate h) \<and> wfAmount (bh_Amount h) \<and> wfText 2 (bh_Indicator h)"

definition wfRecord :: "Record \<Rightarrow> bool" where
  "wfRecord r \<longleftrightarrow>
     wfText 7 (r_BSBNumber r) \<and> wfText 9 (r_AccountNumber r) \<and> wfText 35 (r_AccountName r)
     \<and> wfDate (r_TransactionDate r) \<and> wfAmount (r_Amount r) \<and> wfText 2 (r_Indicator r)
     \<and> wfText 2 (r_TransactionCode r) \<and> wfText 40 (r_Description r)
     \<and> wfInt 10 (r_ReferenceNumber r) \<and> wfText 10 (r_SecondaryReferenceNumber r)
     \<and> wfText 8 (r_ChequeNumber r)"

definition wfBatchTrailer :: "BatchTrailer \<Rightarrow> bool" where
  "wfBatchTrailer t \<longleftrightarrow>
     wfInt 1 (bt_recordType t)
     \<and> wfText 7 (bt_BSBNumber t) \<and> wfText 9 (bt_AccountNumber t) \<and> wfText 35 (bt_AccountName t)
     \<and> wfDate (bt_TransactionDate t) \<and> wfAmount (bt_Amount t) \<and> wfText 2 (bt_Indicator t)
     \<and> wfText 2 (bt_BatchType t) \<and> wfInt 6 (bt_ReferenceNumber t)
     \<and> wfInt 6 (bt_TotalDebitTransactions t) \<and> wfInt 6 (bt_TotalCreditTransactions t)
     \<and> wfAmount (bt_TotalDebitAmount t) \<and> wfAmount (bt_TotalCreditAmount t)"

definition wfFileTrailer :: "FileTrailer \<Rightarrow> bool" where
  "wfFileTrailer t \<longleftrightarrow>
     wfInt 1 (ft_recordType t)
     \<and> wfText 8 (ft_CustomerNumber t) \<and> wfText 35 (ft_CustomerName t)
     \<and> wfInt 6 (ft_TotalDebitTransactions t) \<and> wfInt 6 (ft_TotalCreditTransactions t)
     \<and> wfAmount (ft_TotalDebitAmount t) \<and> wfAmount (ft_TotalCreditAmount t)"

section \<open>The lines of an input\<close>

text \<open>
  The lines \<^verbatim>\<open>ReadAll\<close> would meet if it read the whole input, and the first byte of a
  line.
\<close>

function splitLines :: "string \<Rightarrow> string list" where
  "splitLines inp =
     (if inp = [] then []
      else case ReadString inp of (line, rest) \<Rightarrow> line # splitLines rest)"
  by pat_completeness auto
termination
  by (relation "measure length") (auto simp: ReadString_shorter [OF _ sym])

definition firstByte :: "string \<Rightarrow> char option" where
  "firstByte l = (case l of [] \<Rightarrow> None | c # _ \<Rightarrow> Some c)"

text \<open>The ordering of the input the reader relies on: before every \<^verbatim>\<open>2\<close> line comes a \<^verbatim>\<open>1\<close> line.\<close>

definition headersFirst :: "string list \<Rightarrow> bool" where
  "headersFirst ls \<longleftrightarrow>
     (\<forall>i < length ls. firstByte (ls ! i) = Some (CHR ''2'') \<longrightarrow>
        (\<exists>j < i. firstByte (ls ! j) = Some (CHR ''1'')))"

text \<open>The same, scanning the lines in order; \<open>seen\<close> tells whether a \<^verbatim>\<open>1\<close> line has passed.\<close>

fun scanOrder :: "bool \<Rightarrow> string list \<Rightarrow> bool" where
  "scanOrder seen [] \<longleftrightarrow> True"
| "scanOrder seen (l # ls) \<longleftrightarrow>
     (if firstByte l = Some (CHR ''1'') then scanOrder True ls
      else if firstByte l = Some (CHR ''2'') then seen \<and> scanOrder seen ls
      else scanOrder seen ls)"

text \<open>A text that holds no line feed.\<close>

definition oneLine :: "string \<Rightarrow> bool" where
  "oneLine s \<longleftrightarrow> CHR 0x0A \<notin> set s"

section \<open>Sample values\<close>

text \<open>
  The values of \<^verbatim>\<open>TestDemo\<close> in \<^verbatim>\<open>txn_test.go\<close>: a debit and a credit record, a
  record with the indicator \<^verbatim>\<open>XX\<close>, a batch and a writer holding them, a writer with a
  second batch that holds the \<^verbatim>\<open>XX\<close> record, a writer with \<^verbatim>\<open>OmitBatchTotals\<close> set,
  and a clock that always reads 23 January 2017; the trailers that go with them, a File
  Header with a customer number of 8 bytes, a Batch Header whose account name is the
  letter e with an acute accent (one rune, the two bytes \<^verbatim>\<open>C3 A9\<close> in UTF-8), and
  inputs for the reader made of their lines.
\<close>

definition demoDate :: Time where
  "demoDate = \<lparr>year = 2017, month = 1, day = 23, nanos = 0, utc = True\<rparr>"

definition demoClock :: "nat \<Rightarrow> Time" where
  "demoClock k = demoDate"

definition demoDebit :: Record where
  "demoDebit = zeroRecord\<lparr>
     r_AccountNumber := ''123456789'',
     r_BSBNumber := ''182-222'',
     r_AccountName := ''DEMO ACCOUNT NUMBER 2'',
     r_Indicator := Debit,
     r_TransactionCode := ''13'',
     r_TransactionDate := demoDate,
     r_Description := ''DDR GL481         Tower Australia'',
     r_ReferenceNumber := 245397,
     r_Amount := 272178 / 100\<rparr>"

definition demoCredit :: Record where
  "demoCredit = zeroRecord\<lparr>
     r_AccountNumber := ''123456789'',
     r_BSBNumber := ''182-222'',
     r_AccountName := ''DEMO ACCOUNT NUMBER 2'',
     r_Indicator := Credit,
     r_TransactionCode := ''50'',
     r_Description := ''TEST TRANS        SIMPSON DESERT O'',
     r_Amount := 1210\<rparr>"

definition demoUnknown :: Record where
  "demoUnknown = demoCredit\<lparr>r_Indicator := ''XX''\<rparr>"

definition demoBatch :: Batch where
  "demoBatch = (NewBatch demoDate)\<lparr>
     b_Records := [demoDebit, demoCredit],
     b_BatchHeader := (b_BatchHeader (NewBatch demoDate))\<lparr>
       bh_BSBNumber := ''182-222'',
       bh_AccountNumber := ''123456789'',
       bh_AccountName := ''DEMO ACCOUNT NUMBER 2'',
       bh_TransactionDate := demoDate,
       bh_Amount := 42632 / 100,
       bh_Indicator := Credit\<rparr>\<rparr>"

definition demoWriter :: Writer where
  "demoWriter = (NewWriter demoDate)\<lparr>
     w_FileHeader := (w_FileHeader (NewWriter demoDate))\<lparr>
       fh_CustomerNumber := ''123456'',
       fh_CustomerName := ''ABC PTY LIMITED'',
       fh_RemitterName := ''MACQUARIE BANK''\<rparr>,
     w_Batch := [demoBatch],
     w_FileTrailer := (w_FileTrailer (NewWriter demoDate))\<lparr>
       ft_CustomerNumber := ''123456'',
       ft_CustomerName := ''ABC PTY LIMITED''\<rparr>\<rparr>"

definition demoBrokenBatch :: Batch where
  "demoBrokenBatch = demoBatch\<lparr>b_Records := [demoDebit, demoUnknown, demoCredit]\<rparr>"

definition demoBrokenWriter :: Writer where
  "demoBrokenWriter = demoWriter\<lparr>w_Batch := [demoBatch, demoBrokenBatch]\<rparr>"

definition demoOmitWriter :: Writer where
  "demoOmitWriter = demoWriter\<lparr>w_OmitBatchTotals := True\<rparr>"

definition demoBatchTrailer :: BatchTrailer where
  "demoBatchTrailer = zeroBatchTrailer\<lparr>
     bt_recordType := 7,
     bt_BSBNumber := ''182-222'',
     bt_AccountNumber := ''123456789'',
     bt_AccountName := ''DEMO ACCOUNT NUMBER 2'',
     bt_TransactionDate := demoDate,
     bt_Amount := 151178 / 100,
     bt_Indicator := ''DR'',
     bt_BatchType := BatchTXN,
     bt_ReferenceNumber := 0,
     bt_TotalDebitTransactions := 1,
     bt_TotalCreditTransactions := 1,
     bt_TotalDebitAmount := 272178 / 100,
     bt_TotalCreditAmount := 1210\<rparr>"

definition demoFileTrailer :: FileTrailer where
  "demoFileTrailer = zeroFileTrailer\<lparr>
     ft_recordType := 9,
     ft_CustomerNumber := ''123456'',
     ft_CustomerName := ''ABC PTY LIMITED'',
     ft_TotalDebitTransactions := 1,
     ft_TotalCreditTransactions := 1,
     ft_TotalDebitAmount := 272178 / 100,
     ft_TotalCreditAmount := 1210\<rparr>"

definition demoFileHeader :: FileHeader where
  "demoFileHeader = zeroFileHeader\<lparr>
     fh_recordType := 0,
     fh_CustomerNumber := ''00123456'',
     fh_CustomerName := ''ABC PTY LIMITED'',
     fh_RemitterName := ''MACQUARIE BANK'',
     fh_FileCreated := demoDate,
     fh_ProcessingDate := demoDate,
     fh_Description := ''ACCOUNT TRANSACTIONS''\<rparr>"

definition demoAccentHeader :: BatchHeader where
  "demoAccentHeader = (b_BatchHeader demoBatch)\<lparr>bh_AccountName := [CHR 0xC3, CHR 0xA9]\<rparr>"

definition demoCreditLine :: string where
  "demoCreditLine = Record_Write demoCredit @ [CHR 0x0A]"

definition demoBadInput :: string where
  "demoBadInput = BatchHeader_Write (b_BatchHeader demoBatch) @ [CHR 0x0A]
     @ Record_Write demoUnknown @ [CHR 0x0A] @ demoCreditLine"

definition demoGoodInput :: string where
  "demoGoodInput = BatchHeader_Write (b_BatchHeader demoBatch) @ [CHR 0x0A] @ demoCreditLine"

definition demoReadBatch :: Batch where
  "demoReadBatch = zeroBatch\<lparr>b_BatchHeader := (b_BatchHeader demoBatch)\<lparr>bh_recordType := 0\<rparr>\<rparr>"

section \<open>Facts about the writer\<close>

lemma padRight_blank: "padRight str [CHR '' ''] len = Some (padBlank str len)"
proof (induction "Suc len - length str" arbitrary: str)
  case 0
  then have "length str > len" by simp
  then show ?case
    by (subst padRight.simps) (simp add: padBlank_def Let_def)
next
  case (Suc n)
  then have le: "length str \<le> len" and n: "n = Suc len - length (str @ [CHR '' ''])" by simp_all
  show ?case
  proof (cases "length str = len")
    case True
    then show ?thesis by (subst padRight.simps) (simp add: padBlank_def Let_def)
  next
    case False
    with le have lt: "length str < len" by simp
    have "padRight str [CHR '' ''] len = padRight (str @ [CHR '' '']) [CHR '' ''] len"
      using lt by (subst padRight.simps) (simp add: Let_def)
    also have "\<dots> = Some (padBlank (str @ [CHR '' '']) len)"
      using Suc.hyps(1) [OF n] .
    also have "padBlank (str @ [CHR '' '']) len = padBlank str len"
    proof -
      have "replicate (len - length str) (CHR '' '') = CHR '' '' # replicate (len - Suc (length str)) (CHR '' '')"
        using lt by (simp add: Suc_diff_Suc flip: replicate_Suc)
      then show ?thesis by (simp add: padBlank_def)
    qed
    finally show ?thesis .
  qed
qed

lemma length_padBlank [simp]: "length (padBlank str len) = len"
  by (simp add: padBlank_def)

lemma Debit_neq_Credit [simp]: "Debit \<noteq> Credit" "Credit \<noteq> Debit"
  by (simp_all add: Debit_def Credit_def)

lemma eol_emit [simp]: "eol (emit s w) = eol w"
  by (simp add: eol_def emit_def)

lemma tally_Nil [simp]: "tallyFile omit [] t = t" "tallyBatch omit [] c = c"
  by (simp_all add: tallyFile_def tallyBatch_def debits_def credits_def amounts_def count_def)

lemma accumulate_valid:
  assumes "IsValid r"
  shows "accumulate w c i r =
    (w\<lparr>w_FileTrailer := tallyFile (w_OmitBatchTotals w) [r] (w_FileTrailer w)\<rparr>,
     tallyBatch (w_OmitBatchTotals w) [r] c)"
  using assms
  by (auto simp: accumulate_def IsValid_def tallyFile_def tallyBatch_def debits_def credits_def
      amounts_def count_def split: if_splits)

lemma tallyFile_Cons: "tallyFile omit (r # rs) t = tallyFile omit rs (tallyFile omit [r] t)"
  by (simp add: tallyFile_def debits_def credits_def amounts_def count_def)

lemma tallyBatch_Cons: "tallyBatch omit (r # rs) c = tallyBatch omit rs (tallyBatch omit [r] c)"
  by (simp add: tallyBatch_def debits_def credits_def amounts_def count_def)

lemma writeRecords_valid:
  assumes "list_all IsValid rs"
  shows "writeRecords w c i rs =
    (None,
     w\<lparr>w_FileTrailer := tallyFile (w_OmitBatchTotals w) rs (w_FileTrailer w),
       w_wr := w_wr w @ recordLines (eol w) rs\<rparr>,
     tallyBatch (w_OmitBatchTotals w) rs c)"
  using assms
proof (induction rs arbitrary: w c i)
  case Nil
  show ?case by (simp add: recordLines_def)
next
  case (Cons r rs)
  then have v: "IsValid r" and vs: "list_all IsValid rs" by simp_all
  show ?case
    by (simp add: v accumulate_valid Cons.IH [OF vs] emit_def eol_def recordLines_def
        tallyFile_Cons [of _ r rs] tallyBatch_Cons [of _ r rs])
qed

lemma debits_append: "debits (xs @ ys) = debits xs @ debits ys"
  and credits_append: "credits (xs @ ys) = credits xs @ credits ys"
  by (simp_all add: debits_def credits_def)

lemma amounts_append: "amounts (xs @ ys) = amounts xs + amounts ys"
  by (simp add: amounts_def)

lemma count_append: "count (xs @ ys) = count xs + count ys"
  by (simp add: count_def)

lemma tallyFile_append: "tallyFile omit (xs @ ys) t = tallyFile omit ys (tallyFile omit xs t)"
  by (simp add: tallyFile_def debits_append credits_append amounts_append count_append add.assoc)

lemma writeBatch_valid:
  assumes "validBatch batch"
  shows "writeBatch now w k batch =
    (None,
     w\<lparr>w_FileTrailer := tallyFile (w_OmitBatchTotals w) (b_Records batch) (w_FileTrailer w),
       w_wr := w_wr w @ batchOutput now (w_OmitBatchTotals w) (eol w) k batch\<rparr>)"
  using assms
  by (simp add: writeBatch_def validBatch_def writeRecords_valid batchOutput_def emit_def eol_def)

lemma writeBatches_valid:
  assumes "list_all validBatch bs"
  shows "writeBatches now w k bs =
    (None,
     w\<lparr>w_FileTrailer := tallyFile (w_OmitBatchTotals w) (allRecords bs) (w_FileTrailer w),
       w_wr := w_wr w @ batchesOutput now (w_OmitBatchTotals w) (eol w) k bs\<rparr>)"
  using assms
proof (induction bs arbitrary: w k)
  case Nil
  show ?case by (simp add: allRecords_def)
next
  case (Cons b bs)
  then have v: "validBatch b" and vs: "list_all validBatch bs" by simp_all
  have app: "allRecords (b # bs) = b_Records b @ allRecords bs"
    by (simp add: allRecords_def)
  show ?case
    by (simp add: writeBatch_valid [OF v] Cons.IH [OF vs] app tallyFile_append eol_def)
qed

lemma Writer_Write_valid:
  assumes "w_Batch w \<noteq> []" and "list_all validBatch (w_Batch w)"
  shows "Writer_Write now w =
    (None,
     w\<lparr>w_FileTrailer := tallyFile (w_OmitBatchTotals w) (allRecords (w_Batch w)) (w_FileTrailer w),
       w_wr := w_wr w @ FileHeader_Write (w_FileHeader w) @ eol w
         @ batchesOutput now (w_OmitBatchTotals w) (eol w) 0 (w_Batch w)
         @ FileTrailer_Write
             (tallyFile (w_OmitBatchTotals w) (allRecords (w_Batch w)) (w_FileTrailer w))
         @ eol w\<rparr>)"
  unfolding Writer_Write_def
  by (simp add: assms Let_def emit_def writeBatches_valid eol_def)

lemma writeRecords_invalid:
  assumes "list_all IsValid pre" and "\<not> IsValid r"
  shows "writeRecords w c i (pre @ r # post) =
    (Some (Errorf_InvalidRecord (i + length pre)),
     w\<lparr>w_FileTrailer := tallyFile (w_OmitBatchTotals w) pre (w_FileTrailer w),
       w_wr := w_wr w @ recordLines (eol w) pre\<rparr>,
     tallyBatch (w_OmitBatchTotals w) pre c)"
  using assms(1)
proof (induction pre arbitrary: w c i)
  case Nil
  show ?case using assms(2) by (simp add: recordLines_def)
next
  case (Cons a pre)
  then have v: "IsValid a" and vs: "list_all IsValid pre" by simp_all
  show ?case
    by (simp add: v accumulate_valid Cons.IH [OF vs] emit_def eol_def recordLines_def
        tallyFile_Cons [of _ a pre] tallyBatch_Cons [of _ a pre])
qed

lemma writeBatch_invalid:
  assumes "b_Records batch = pre @ r # post" and "list_all IsValid pre" and "\<not> IsValid r"
  shows "writeBatch now w k batch =
    (Some (Errorf_InvalidRecord (length pre)),
     w\<lparr>w_FileTrailer := tallyFile (w_OmitBatchTotals w) pre (w_FileTrailer w),
       w_wr := w_wr w @ BatchHeader_Write (b_BatchHeader batch) @ eol w
         @ recordLines (eol w) pre\<rparr>)"
  by (simp add: writeBatch_def assms(1) writeRecords_invalid [OF assms(2,3)] emit_def eol_def)

lemma writeBatches_invalid:
  assumes "list_all validBatch bpre"
    and "b_Records batch = pre @ r # post" and "list_all IsValid pre" and "\<not> IsValid r"
  shows "writeBatches now w k (bpre @ batch # bpost) =
    (Some (Errorf_InvalidRecord (length pre)),
     w\<lparr>w_FileTrailer :=
         tallyFile (w_OmitBatchTotals w) (allRecords bpre @ pre) (w_FileTrailer w),
       w_wr := w_wr w @ batchesOutput now (w_OmitBatchTotals w) (eol w) k bpre
         @ BatchHeader_Write (b_BatchHeader batch) @ eol w @ recordLines (eol w) pre\<rparr>)"
  using assms(1)
proof (induction bpre arbitrary: w k)
  case Nil
  show ?case
    by (simp add: writeBatch_invalid [OF assms(2,3,4)] allRecords_def)
next
  case (Cons b bs)
  then have v: "validBatch b" and vs: "list_all validBatch bs" by simp_all
  have app: "allRecords (b # bs) = b_Records b @ allRecords bs"
    by (simp add: allRecords_def)
  show ?case
    by (simp add: writeBatch_valid [OF v] Cons.IH [OF vs] app tallyFile_append eol_def)
qed

lemma Writer_Write_invalid:
  assumes "w_Batch w = bpre @ batch # bpost" and "list_all validBatch bpre"
    and "b_Records batch = pre @ r # post" and "list_all IsValid pre" and "\<not> IsValid r"
  shows "Writer_Write now w =
    (Some (Errorf_InvalidRecord (length pre)),
     w\<lparr>w_FileTrailer :=
         tallyFile (w_OmitBatchTotals w) (allRecords bpre @ pre) (w_FileTrailer w),
       w_wr := w_wr w @ FileHeader_Write (w_FileHeader w) @ eol w
         @ batchesOutput now (w_OmitBatchTotals w) (eol w) 0 bpre
         @ BatchHeader_Write (b_BatchHeader batch) @ eol w @ recordLines (eol w) pre\<rparr>)"
  unfolding Writer_Write_def
  by (simp add: assms(1) Let_def emit_def writeBatches_invalid [OF assms(2,3,4,5)] eol_def)

lemma accumulate_wr [simp]: "w_wr (fst (accumulate w c i r)) = w_wr w"
  and accumulate_eol [simp]: "eol (fst (accumulate w c i r)) = eol w"
  by (simp_all add: accumulate_def eol_def)

lemma writeRecords_extends:
  "\<exists>rest. w_wr (fst (snd (writeRecords w c i rs))) = w_wr w @ rest"
proof (induction rs arbitrary: w c i)
  case Nil
  show ?case by simp
next
  case (Cons r rs)
  show ?case
  proof (cases "IsValid r")
    case False
    then show ?thesis by simp
  next
    case True
    obtain w1 c1 where acc: "accumulate w c i r = (w1, c1)" by (cases "accumulate w c i r")
    then have wr1: "w_wr w1 = w_wr w"
      using accumulate_wr [of w c i r] by simp
    from Cons.IH [of "emit (Record_Write r @ eol w1) w1" c1 "Suc i"]
    obtain rest where
      "w_wr (fst (snd (writeRecords (emit (Record_Write r @ eol w1) w1) c1 (Suc i) rs))) =
       w_wr (emit (Record_Write r @ eol w1) w1) @ rest" by blast
    then show ?thesis
      using True acc wr1 by (simp add: emit_def)
  qed
qed

lemma writeBatch_extends: "\<exists>rest. w_wr (snd (writeBatch now w k batch)) = w_wr w @ rest"
proof -
  let ?w1 = "emit (BatchHeader_Write (b_BatchHeader batch) @ eol w) w"
  obtain e w2 c where res: "writeRecords ?w1 zeroTotals 0 (b_Records batch) = (e, w2, c)"
    by (cases "writeRecords ?w1 zeroTotals 0 (b_Records batch)")
  from writeRecords_extends [of ?w1 zeroTotals 0 "b_Records batch"] res
  obtain rest where "w_wr w2 = w_wr ?w1 @ rest" by auto
  then show ?thesis
    using res by (cases e) (simp_all add: writeBatch_def emit_def)
qed

lemma writeBatches_extends: "\<exists>rest. w_wr (snd (writeBatches now w k bs)) = w_wr w @ rest"
proof (induction bs arbitrary: w k)
  case Nil
  show ?case by simp
next
  case (Cons b bs)
  obtain e w' where res: "writeBatch now w k b = (e, w')" by (cases "writeBatch now w k b")
  from writeBatch_extends [of now w k b] res obtain r1 where r1: "w_wr w' = w_wr w @ r1" by auto
  show ?case
  proof (cases e)
    case None
    from Cons.IH [of w' "Suc k"] obtain r2 where
      "w_wr (snd (writeBatches now w' (Suc k) bs)) = w_wr w' @ r2" by blast
    then show ?thesis using None res r1 by simp
  next
    case (Some a)
    then show ?thesis using res r1 by simp
  qed
qed

lemma writeBatches_append:
  "writeBatches now w k (xs @ ys) =
     (case writeBatches now w k xs of
        (Some e, w') \<Rightarrow> (Some e, w')
      | (None, w') \<Rightarrow> writeBatches now w' (k + length xs) ys)"
proof (induction xs arbitrary: w k)
  case Nil
  show ?case by simp
next
  case (Cons x xs)
  show ?case
    by (cases "writeBatch now w k x") (auto simp: Cons.IH split: option.splits prod.splits)
qed

lemma batchesOutput_append:
  "batchesOutput now omit nl k (xs @ ys) =
   batchesOutput now omit nl k xs @ batchesOutput now omit nl (k + length xs) ys"
  by (induction xs arbitrary: k) simp_all

lemma Writer_Write_reaches_batch:
  assumes "w_Batch w = bpre @ batch # bpost"
    and "list_all validBatch bpre" and "validBatch batch"
  shows "\<exists>rest. w_wr (snd (Writer_Write now w)) =
      w_wr w @ FileHeader_Write (w_FileHeader w) @ eol w
      @ batchesOutput now (w_OmitBatchTotals w) (eol w) 0 bpre
      @ batchOutput now (w_OmitBatchTotals w) (eol w) (length bpre) batch @ rest"
proof -
  let ?w1 = "emit (FileHeader_Write (w_FileHeader w) @ eol w) w"
  let ?o = "w_OmitBatchTotals w"
  have split: "w_Batch w = (bpre @ [batch]) @ bpost" using assms(1) by simp
  have v: "list_all validBatch (bpre @ [batch])" using assms(2,3) by simp
  define w2 where "w2 = snd (writeBatches now ?w1 0 (bpre @ [batch]))"
  have w2: "writeBatches now ?w1 0 (bpre @ [batch]) = (None, w2)"
    unfolding w2_def by (simp add: writeBatches_valid [OF v])
  have wr2: "w_wr w2 = w_wr w @ FileHeader_Write (w_FileHeader w) @ eol w
      @ batchesOutput now ?o (eol w) 0 bpre @ batchOutput now ?o (eol w) (length bpre) batch"
    unfolding w2_def
    by (simp add: writeBatches_valid [OF v] batchesOutput_append emit_def eol_def)
  obtain e w3 where w3: "writeBatches now w2 (Suc (length bpre)) bpost = (e, w3)"
    by (cases "writeBatches now w2 (Suc (length bpre)) bpost")
  from writeBatches_extends [of now w2 "Suc (length bpre)" bpost] w3
  obtain r3 where r3: "w_wr w3 = w_wr w2 @ r3" by auto
  have all: "writeBatches now ?w1 0 (w_Batch w) = (e, w3)"
    by (simp only: split writeBatches_append [of now ?w1 0 "bpre @ [batch]" bpost] w2) (simp add: w3)
  have "\<exists>r4. w_wr (snd (Writer_Write now w)) = w_wr w3 @ r4"
    unfolding Writer_Write_def
    by (cases e) (simp_all add: assms(1) Let_def emit_def all [unfolded emit_def assms(1)])
  then show ?thesis using r3 wr2 by auto
qed

lemma IsValid_demo [simp]: "IsValid demoDebit" "IsValid demoCredit" "\<not> IsValid demoUnknown"
  by (simp_all add: IsValid_def demoDebit_def demoCredit_def demoUnknown_def zeroRecord_def
      Debit_def Credit_def isDigit_def)

lemma validBatch_demo [simp]: "validBatch demoBatch"
  by (simp add: validBatch_def demoBatch_def)

lemma demoWriter_simps [simp]:
  "w_Batch demoWriter = [demoBatch]" "\<not> w_OmitBatchTotals demoWriter"
  "\<not> w_CRLFLineEndings demoWriter" "w_wr demoWriter = []" "w_log demoWriter = []"
  by (simp_all add: demoWriter_def NewWriter_def)

section \<open>The claims about the writer\<close>

text \<open>
  Claim C7. \<^verbatim>\<open>Writer.Write\<close> on a writer whose batch list is empty returns the
  "insufficient batches" error and leaves the writer as it was: nothing, not even the
  file header, is handed to the sink.
\<close>

theorem Write_no_batches:
  assumes "w_Batch w = []"
  shows "Writer_Write now w = (Some ErrInsufficientBatches, w)
    \<and> w_wr (snd (Writer_Write now w)) = w_wr w"
  using assms by (simp add: Writer_Write_def)

theorem Write_no_batches_witness:
  "w_Batch (demoWriter\<lparr>w_Batch := []\<rparr>) = []
   \<and> Writer_Write demoClock (demoWriter\<lparr>w_Batch := []\<rparr>)
       = (Some ErrInsufficientBatches, demoWriter\<lparr>w_Batch := []\<rparr>)
   \<and> w_wr (snd (Writer_Write demoClock (demoWriter\<lparr>w_Batch := []\<rparr>))) = []"
  using Write_no_batches [of "demoWriter\<lparr>w_Batch := []\<rparr>" demoClock] by simp

text \<open>
  Claim C6. When the batches before \<open>batch\<close> hold only valid records and \<open>r\<close> is the
  first invalid record of \<open>batch\<close>, at index \<open>length pre\<close>, the write returns the
  invalid-record error carrying that index, and the output ends with the lines of the
  records before \<open>r\<close>: neither \<open>r\<close> nor any later record, trailer or batch is written.
\<close>

theorem Write_first_invalid_record:
  assumes "w_Batch w = bpre @ batch # bpost" and "list_all validBatch bpre"
    and "b_Records batch = pre @ r # post" and "list_all IsValid pre" and "\<not> IsValid r"
  shows "fst (Writer_Write now w) = Some (Errorf_InvalidRecord (length pre))
    \<and> w_wr (snd (Writer_Write now w)) =
        w_wr w @ FileHeader_Write (w_FileHeader w) @ eol w
        @ batchesOutput now (w_OmitBatchTotals w) (eol w) 0 bpre
        @ BatchHeader_Write (b_BatchHeader batch) @ eol w @ recordLines (eol w) pre"
  by (simp add: Writer_Write_invalid [OF assms])

theorem Write_first_invalid_record_witness:
  "w_Batch demoBrokenWriter = [demoBatch] @ demoBrokenBatch # []
   \<and> list_all validBatch [demoBatch]
   \<and> b_Records demoBrokenBatch = [demoDebit] @ demoUnknown # [demoCredit]
   \<and> list_all IsValid [demoDebit]
   \<and> \<not> IsValid demoUnknown
   \<and> r_Indicator demoUnknown = ''XX''
   \<and> fst (Writer_Write demoClock demoBrokenWriter) = Some (Errorf_InvalidRecord 1)
   \<and> w_wr (snd (Writer_Write demoClock demoBrokenWriter)) =
        FileHeader_Write (w_FileHeader demoWriter) @ [CHR 0x0A]
        @ batchOutput demoClock False [CHR 0x0A] 0 demoBatch
        @ BatchHeader_Write (b_BatchHeader demoBatch) @ [CHR 0x0A]
        @ Record_Write demoDebit @ [CHR 0x0A]"
proof -
  have h1: "w_Batch demoBrokenWriter = [demoBatch] @ demoBrokenBatch # []"
    by (simp add: demoBrokenWriter_def)
  have h2: "list_all validBatch [demoBatch]" by simp
  have h3: "b_Records demoBrokenBatch = [demoDebit] @ demoUnknown # [demoCredit]"
    by (simp add: demoBrokenBatch_def)
  have h4: "list_all IsValid [demoDebit]" by simp
  have h5: "\<not> IsValid demoUnknown" by simp
  have h6: "r_Indicator demoUnknown = ''XX''" by (simp add: demoUnknown_def)
  from Write_first_invalid_record [OF h1 h2 h3 h4 h5, of demoClock]
  have "fst (Writer_Write demoClock demoBrokenWriter) = Some (Errorf_InvalidRecord 1)
    \<and> w_wr (snd (Writer_Write demoClock demoBrokenWriter)) =
        FileHeader_Write (w_FileHeader demoWriter) @ [CHR 0x0A]
        @ batchOutput demoClock False [CHR 0x0A] 0 demoBatch
        @ BatchHeader_Write (b_BatchHeader demoBatch) @ [CHR 0x0A]
        @ Record_Write demoDebit @ [CHR 0x0A]"
    by (simp add: demoBrokenWriter_def demoBrokenBatch_def eol_def recordLines_def)
  with h1 h2 h3 h4 h5 h6 show ?thesis by blast
qed

lemma closeBatch_sums:
  "closeBatch t k batch (tallyBatch omit (b_Records batch) zeroTotals) = sumTrailer t omit k batch"
  by (cases "b_BatchTrailer batch")
     (simp add: closeBatch_def sumTrailer_def tallyBatch_def zeroTotals_def Let_def sgn_if
        debits_def credits_def amounts_def count_def not_le)

text \<open>
  Claim C2. With \<^verbatim>\<open>OmitBatchTotals\<close> false, when the write reaches a batch all of whose
  records are valid (the batches before it being valid too), the line written after the
  records of that batch is the encoding of this trailer: its debit and credit amounts are
  the sums over the debit and the credit records of the batch, its amount is the absolute
  difference of the two, its indicator is \<^verbatim>\<open>CR\<close> when the credit sum is at least the
  debit sum and \<^verbatim>\<open>DR\<close> otherwise, and its reference number is the position of the
  batch in the file, counted from 0. The other fields are written out as well: the two
  counts are the numbers of debit and of credit records, the account is that of the batch
  header, the batch type is \<^verbatim>\<open>ST\<close>, the date is the reading of the clock in that round
  and the record type is the one the batch holds.
\<close>

theorem Write_batch_trailer_totals:
  assumes "\<not> w_OmitBatchTotals w" and "w_Batch w = bpre @ batch # bpost"
    and "list_all validBatch bpre" and "validBatch batch"
  shows "\<exists>rest.
      w_wr (snd (Writer_Write now w)) =
        w_wr w @ FileHeader_Write (w_FileHeader w) @ eol w
        @ batchesOutput now False (eol w) 0 bpre
        @ BatchHeader_Write (b_BatchHeader batch) @ eol w
        @ recordLines (eol w) (b_Records batch)
        @ BatchTrailer_Write
            \<lparr>bt_recordType = bt_recordType (b_BatchTrailer batch),
             bt_BSBNumber = bh_BSBNumber (b_BatchHeader batch),
             bt_AccountNumber = bh_AccountNumber (b_BatchHeader batch),
             bt_AccountName = bh_AccountName (b_BatchHeader batch),
             bt_TransactionDate = now (length bpre),
             bt_Amount =
               \<bar>amounts (credits (b_Records batch)) - amounts (debits (b_Records batch))\<bar>,
             bt_Indicator =
               (if amounts (credits (b_Records batch)) \<ge> amounts (debits (b_Records batch))
                then ''CR'' else ''DR''),
             bt_BatchType = BatchTXN,
             bt_ReferenceNumber = of_nat (length bpre),
             bt_TotalDebitTransactions = count (debits (b_Records batch)),
             bt_TotalCreditTransactions = count (credits (b_Records batch)),
             bt_TotalDebitAmount = amounts (debits (b_Records batch)),
             bt_TotalCreditAmount = amounts (credits (b_Records batch))\<rparr>
        @ eol w @ rest"
proof -
  from Writer_Write_reaches_batch [OF assms(2,3,4), of now] assms(1)
  obtain rest where "w_wr (snd (Writer_Write now w)) =
        w_wr w @ FileHeader_Write (w_FileHeader w) @ eol w
        @ batchesOutput now False (eol w) 0 bpre
        @ BatchHeader_Write (b_BatchHeader batch) @ eol w
        @ recordLines (eol w) (b_Records batch)
        @ BatchTrailer_Write (sumTrailer (now (length bpre)) False (length bpre) batch)
        @ eol w @ rest"
    by (auto simp: batchOutput_def closeBatch_sums)
  then show ?thesis
    by (intro exI [of _ rest]) (simp add: sumTrailer_def Let_def)
qed

theorem Write_batch_trailer_totals_witness:
  "\<not> w_OmitBatchTotals demoWriter \<and> w_Batch demoWriter = [] @ demoBatch # []
   \<and> list_all validBatch [] \<and> validBatch demoBatch
   \<and> b_Records demoBatch = [demoDebit, demoCredit]
   \<and> r_Amount demoDebit = 272178 / 100 \<and> r_Amount demoCredit = 1210
   \<and> (\<exists>rest.
      w_wr (snd (Writer_Write demoClock demoWriter)) =
        FileHeader_Write (w_FileHeader demoWriter) @ [CHR 0x0A]
        @ BatchHeader_Write (b_BatchHeader demoBatch) @ [CHR 0x0A]
        @ Record_Write demoDebit @ [CHR 0x0A] @ Record_Write demoCredit @ [CHR 0x0A]
        @ BatchTrailer_Write
            \<lparr>bt_recordType = 7,
             bt_BSBNumber = ''182-222'',
             bt_AccountNumber = ''123456789'',
             bt_AccountName = ''DEMO ACCOUNT NUMBER 2'',
             bt_TransactionDate = demoDate,
             bt_Amount = 151178 / 100,
             bt_Indicator = ''DR'',
             bt_BatchType = ''ST'',
             bt_ReferenceNumber = 0,
             bt_TotalDebitTransactions = 1,
             bt_TotalCreditTransactions = 1,
             bt_TotalDebitAmount = 272178 / 100,
             bt_TotalCreditAmount = 1210\<rparr>
        @ [CHR 0x0A] @ rest)"
proof -
  have d: "amounts (debits [demoDebit, demoCredit]) = 272178 / 100"
    "count (debits [demoDebit, demoCredit]) = 1"
    and c: "amounts (credits [demoDebit, demoCredit]) = 1210"
    "count (credits [demoDebit, demoCredit]) = 1"
    by (simp_all add: amounts_def count_def debits_def credits_def demoDebit_def
        demoCredit_def zeroRecord_def)
  have h: "bt_recordType (b_BatchTrailer demoBatch) = 7"
    "bh_BSBNumber (b_BatchHeader demoBatch) = ''182-222''"
    "bh_AccountNumber (b_BatchHeader demoBatch) = ''123456789''"
    "bh_AccountName (b_BatchHeader demoBatch) = ''DEMO ACCOUNT NUMBER 2''"
    "b_Records demoBatch = [demoDebit, demoCredit]"
    by (simp_all add: demoBatch_def NewBatch_def zeroBatchTrailer_def)
  have a: "r_Amount demoDebit = 272178 / 100" "r_Amount demoCredit = 1210"
    by (simp_all add: demoDebit_def demoCredit_def zeroRecord_def)
  have e: "eol demoWriter = [CHR 0x0A]" by (simp add: eol_def)
  from Write_batch_trailer_totals [of demoWriter "[]" demoBatch "[]" demoClock]
  have "\<exists>rest.
      w_wr (snd (Writer_Write demoClock demoWriter)) =
        FileHeader_Write (w_FileHeader demoWriter) @ [CHR 0x0A]
        @ BatchHeader_Write (b_BatchHeader demoBatch) @ [CHR 0x0A]
        @ Record_Write demoDebit @ [CHR 0x0A] @ Record_Write demoCredit @ [CHR 0x0A]
        @ BatchTrailer_Write
            \<lparr>bt_recordType = 7,
             bt_BSBNumber = ''182-222'',
             bt_AccountNumber = ''123456789'',
             bt_AccountName = ''DEMO ACCOUNT NUMBER 2'',
             bt_TransactionDate = demoDate,
             bt_Amount = 151178 / 100,
             bt_Indicator = ''DR'',
             bt_BatchType = ''ST'',
             bt_ReferenceNumber = 0,
             bt_TotalDebitTransactions = 1,
             bt_TotalCreditTransactions = 1,
             bt_TotalDebitAmount = 272178 / 100,
             bt_TotalCreditAmount = 1210\<rparr>
        @ [CHR 0x0A] @ rest"
    by (simp add: d c h(1,2,3,4) e recordLines_def h(5) demoClock_def BatchTXN_def)
  then show ?thesis using h(5) a by simp
qed

lemma trailersFrom_simps [simp]:
  "trailersFrom now omit k [] = []"
  "trailersFrom now omit k (b # bs) = sumTrailer (now k) omit k b # trailersFrom now omit (Suc k) bs"
  by (simp_all add: trailersFrom_def)

lemma length_trailersFrom [simp]: "length (trailersFrom now omit k bs) = length bs"
  by (simp add: trailersFrom_def)

lemma batchesOutput_batchesWith:
  "batchesOutput now omit nl k bs = batchesWith nl bs (trailersFrom now omit k bs)"
proof (induction bs arbitrary: k)
  case Nil
  show ?case by (simp add: batchesWith_def)
next
  case (Cons b bs)
  have "batchesWith nl (b # bs) (trailersFrom now omit k (b # bs)) =
      batchOutput now omit nl k b @ batchesWith nl bs (trailersFrom now omit (Suc k) bs)"
    by (simp add: batchesWith_def batchOutput_def closeBatch_sums)
  then show ?case by (simp add: Cons.IH)
qed

lemma allRecords_simps [simp]:
  "allRecords [] = []" "allRecords (b # bs) = b_Records b @ allRecords bs"
  by (simp_all add: allRecords_def)

lemma trailersFrom_sums:
  "sum_list (map bt_TotalDebitTransactions (trailersFrom now False k bs)) = count (debits (allRecords bs))"
  "sum_list (map bt_TotalCreditTransactions (trailersFrom now False k bs)) = count (credits (allRecords bs))"
  "sum_list (map bt_TotalDebitAmount (trailersFrom now False k bs)) = amounts (debits (allRecords bs))"
  "sum_list (map bt_TotalCreditAmount (trailersFrom now False k bs)) = amounts (credits (allRecords bs))"
  by (induction bs arbitrary: k;
      simp add: sumTrailer_def Let_def debits_append credits_append count_append
        amounts_append debits_def credits_def count_def amounts_def)+

lemma trailersFrom_omit: "list_all zeroTotalsTrailer (trailersFrom now True k bs)"
  by (induction bs arbitrary: k)
     (simp_all add: zeroTotalsTrailer_def sumTrailer_def Let_def debits_def credits_def
        count_def amounts_def)

lemma NewWriter_zero_totals: "zeroTotalsFile (w_FileTrailer (NewWriter t))"
  by (simp add: NewWriter_def zeroFileTrailer_def zeroTotalsFile_def)

lemma demoWriter_zero_totals [simp]: "zeroTotalsFile (w_FileTrailer demoWriter)"
  by (simp add: demoWriter_def NewWriter_def zeroFileTrailer_def zeroTotalsFile_def)

text \<open>
  Claim C5. For a writer whose file trailer totals are zero, as \<^verbatim>\<open>NewWriter\<close> builds it
  (lemma \<open>NewWriter_zero_totals\<close>), over a non-empty list of batches of valid records:
  the write succeeds, and its output is the file header, for each batch its header, its
  records and the trailer \<open>trailersFrom now omit 0 bs ! k\<close>, which is \<open>sumTrailer\<close> of the
  batch, and the file trailer the writer holds afterwards. With \<^verbatim>\<open>OmitBatchTotals\<close>
  false each of the four totals of the file trailer is the sum of that total over these
  batch trailers; with \<^verbatim>\<open>OmitBatchTotals\<close> true the four totals are zero in every one of
  them and in the file trailer.
\<close>

theorem Write_file_totals:
  assumes "zeroTotalsFile (w_FileTrailer w)" and "w_Batch w \<noteq> []"
    and "list_all validBatch (w_Batch w)"
  shows "fst (Writer_Write now w) = None
    \<and> w_wr (snd (Writer_Write now w)) =
        w_wr w @ FileHeader_Write (w_FileHeader w) @ eol w
        @ batchesWith (eol w) (w_Batch w) (trailersFrom now (w_OmitBatchTotals w) 0 (w_Batch w))
        @ FileTrailer_Write (w_FileTrailer (snd (Writer_Write now w))) @ eol w
    \<and> (w_OmitBatchTotals w \<longrightarrow>
         list_all zeroTotalsTrailer (trailersFrom now (w_OmitBatchTotals w) 0 (w_Batch w))
         \<and> zeroTotalsFile (w_FileTrailer (snd (Writer_Write now w))))
    \<and> (\<not> w_OmitBatchTotals w \<longrightarrow>
         ft_TotalDebitTransactions (w_FileTrailer (snd (Writer_Write now w)))
           = sum_list (map bt_TotalDebitTransactions
               (trailersFrom now (w_OmitBatchTotals w) 0 (w_Batch w)))
         \<and> ft_TotalCreditTransactions (w_FileTrailer (snd (Writer_Write now w)))
           = sum_list (map bt_TotalCreditTransactions
               (trailersFrom now (w_OmitBatchTotals w) 0 (w_Batch w)))
         \<and> ft_TotalDebitAmount (w_FileTrailer (snd (Writer_Write now w)))
           = sum_list (map bt_TotalDebitAmount
               (trailersFrom now (w_OmitBatchTotals w) 0 (w_Batch w)))
         \<and> ft_TotalCreditAmount (w_FileTrailer (snd (Writer_Write now w)))
           = sum_list (map bt_TotalCreditAmount
               (trailersFrom now (w_OmitBatchTotals w) 0 (w_Batch w))))"
proof -
  let ?ts = "trailersFrom now (w_OmitBatchTotals w) 0 (w_Batch w)"
  note run = Writer_Write_valid [OF assms(2,3), of now]
  have out: "w_wr (snd (Writer_Write now w)) =
        w_wr w @ FileHeader_Write (w_FileHeader w) @ eol w
        @ batchesWith (eol w) (w_Batch w) ?ts
        @ FileTrailer_Write (w_FileTrailer (snd (Writer_Write now w))) @ eol w"
    by (simp add: run batchesOutput_batchesWith)
  have tot1: "w_OmitBatchTotals w \<longrightarrow>
         list_all zeroTotalsTrailer ?ts
         \<and> zeroTotalsFile (w_FileTrailer (snd (Writer_Write now w)))"
    using assms(1)
    by (simp add: run trailersFrom_omit tallyFile_def)
  have tot2: "\<not> w_OmitBatchTotals w \<longrightarrow>
         ft_TotalDebitTransactions (w_FileTrailer (snd (Writer_Write now w)))
           = sum_list (map bt_TotalDebitTransactions ?ts)
         \<and> ft_TotalCreditTransactions (w_FileTrailer (snd (Writer_Write now w)))
           = sum_list (map bt_TotalCreditTransactions ?ts)
         \<and> ft_TotalDebitAmount (w_FileTrailer (snd (Writer_Write now w)))
           = sum_list (map bt_TotalDebitAmount ?ts)
         \<and> ft_TotalCreditAmount (w_FileTrailer (snd (Writer_Write now w)))
           = sum_list (map bt_TotalCreditAmount ?ts)"
    using assms(1)
    by (simp add: run trailersFrom_sums tallyFile_def zeroTotalsFile_def)
  have ok: "fst (Writer_Write now w) = None" by (simp add: run)
  show ?thesis
    by (intro conjI) (rule ok out tot1 tot2)+
qed

theorem Write_file_totals_witness:
  "zeroTotalsFile (w_FileTrailer demoWriter) \<and> w_Batch demoWriter = [demoBatch]
   \<and> list_all validBatch (w_Batch demoWriter) \<and> \<not> w_OmitBatchTotals demoWriter
   \<and> b_Records demoBatch = [demoDebit, demoCredit]
   \<and> r_Amount demoDebit = 272178 / 100 \<and> r_Amount demoCredit = 1210
   \<and> fst (Writer_Write demoClock demoWriter) = None
   \<and> map bt_TotalDebitTransactions (trailersFrom demoClock False 0 [demoBatch]) = [1]
   \<and> map bt_TotalCreditTransactions (trailersFrom demoClock False 0 [demoBatch]) = [1]
   \<and> map bt_TotalDebitAmount (trailersFrom demoClock False 0 [demoBatch]) = [272178 / 100]
   \<and> map bt_TotalCreditAmount (trailersFrom demoClock False 0 [demoBatch]) = [1210]
   \<and> ft_TotalDebitTransactions (w_FileTrailer (snd (Writer_Write demoClock demoWriter))) = 1
   \<and> ft_TotalCreditTransactions (w_FileTrailer (snd (Writer_Write demoClock demoWriter))) = 1
   \<and> ft_TotalDebitAmount (w_FileTrailer (snd (Writer_Write demoClock demoWriter)))
       = 272178 / 100
   \<and> ft_TotalCreditAmount (w_FileTrailer (snd (Writer_Write demoClock demoWriter))) = 1210
   \<and> zeroTotalsFile (w_FileTrailer demoOmitWriter) \<and> w_Batch demoOmitWriter = [demoBatch]
   \<and> list_all validBatch (w_Batch demoOmitWriter) \<and> w_OmitBatchTotals demoOmitWriter
   \<and> fst (Writer_Write demoClock demoOmitWriter) = None
   \<and> list_all zeroTotalsTrailer (trailersFrom demoClock True 0 [demoBatch])
   \<and> zeroTotalsFile (w_FileTrailer (snd (Writer_Write demoClock demoOmitWriter)))"
proof -
  have a1: "zeroTotalsFile (w_FileTrailer demoWriter)" and a2: "w_Batch demoWriter \<noteq> []"
    and a3: "list_all validBatch (w_Batch demoWriter)" and a4: "\<not> w_OmitBatchTotals demoWriter"
    and a5: "w_Batch demoWriter = [demoBatch]"
    by simp_all
  have b1: "zeroTotalsFile (w_FileTrailer demoOmitWriter)" and b2: "w_Batch demoOmitWriter \<noteq> []"
    and b3: "list_all validBatch (w_Batch demoOmitWriter)" and b4: "w_OmitBatchTotals demoOmitWriter"
    and b5: "w_Batch demoOmitWriter = [demoBatch]"
    by (simp_all add: demoOmitWriter_def)
  have r: "b_Records demoBatch = [demoDebit, demoCredit]"
    "r_Amount demoDebit = 272178 / 100" "r_Amount demoCredit = 1210"
    by (simp_all add: demoBatch_def demoDebit_def demoCredit_def zeroRecord_def)
  have t: "map bt_TotalDebitTransactions (trailersFrom demoClock False 0 [demoBatch]) = [1]"
    "map bt_TotalCreditTransactions (trailersFrom demoClock False 0 [demoBatch]) = [1]"
    "map bt_TotalDebitAmount (trailersFrom demoClock False 0 [demoBatch]) = [272178 / 100]"
    "map bt_TotalCreditAmount (trailersFrom demoClock False 0 [demoBatch]) = [1210]"
    by (simp_all add: sumTrailer_def Let_def r(1) debits_def credits_def count_def amounts_def
        demoDebit_def demoCredit_def zeroRecord_def)
  from Write_file_totals [OF a1 a2 a3, of demoClock] a4
  have a: "fst (Writer_Write demoClock demoWriter) = None"
    "ft_TotalDebitTransactions (w_FileTrailer (snd (Writer_Write demoClock demoWriter))) = 1"
    "ft_TotalCreditTransactions (w_FileTrailer (snd (Writer_Write demoClock demoWriter))) = 1"
    "ft_TotalDebitAmount (w_FileTrailer (snd (Writer_Write demoClock demoWriter)))
       = 272178 / 100"
    "ft_TotalCreditAmount (w_FileTrailer (snd (Writer_Write demoClock demoWriter))) = 1210"
    by (simp_all only: a5 t) simp_all
  from Write_file_totals [OF b1 b2 b3, of demoClock] b4
  have b: "fst (Writer_Write demoClock demoOmitWriter) = None"
    "list_all zeroTotalsTrailer (trailersFrom demoClock True 0 [demoBatch])"
    "zeroTotalsFile (w_FileTrailer (snd (Writer_Write demoClock demoOmitWriter)))"
    by (simp_all only: b5)
  from a1 a5 a3 a4 r a(1) t a(2-5) b1 b5 b3 b4 b show ?thesis by (intro conjI)
qed

lemma writeRecords_log: "w_log (fst (snd (writeRecords w c i rs))) = w_log w"
proof (induction rs arbitrary: w c i)
  case Nil
  show ?case by simp
next
  case (Cons r rs)
  show ?case
  proof (cases "IsValid r")
    case True
    then show ?thesis by (simp add: accumulate_valid Cons.IH emit_def)
  next
    case False
    then show ?thesis by simp
  qed
qed

lemma writeBatch_log: "w_log (snd (writeBatch now w k batch)) = w_log w"
proof -
  let ?w1 = "emit (BatchHeader_Write (b_BatchHeader batch) @ eol w) w"
  obtain e w2 c where res: "writeRecords ?w1 zeroTotals 0 (b_Records batch) = (e, w2, c)"
    by (cases "writeRecords ?w1 zeroTotals 0 (b_Records batch)")
  from writeRecords_log [of ?w1 zeroTotals 0 "b_Records batch"] res
  have "w_log w2 = w_log w" by (simp add: emit_def)
  then show ?thesis
    using res by (cases e) (simp_all add: writeBatch_def emit_def)
qed

lemma writeBatches_log: "w_log (snd (writeBatches now w k bs)) = w_log w"
proof (induction bs arbitrary: w k)
  case Nil
  show ?case by simp
next
  case (Cons b bs)
  obtain e w' where res: "writeBatch now w k b = (e, w')" by (cases "writeBatch now w k b")
  with writeBatch_log [of now w k b] have "w_log w' = w_log w" by simp
  then show ?case using res Cons.IH [of w' "Suc k"] by (cases e) simp_all
qed

lemma Writer_Write_log: "w_log (snd (Writer_Write now w)) = w_log w"
proof -
  let ?w1 = "emit (FileHeader_Write (w_FileHeader w) @ eol w) w"
  obtain e w2 where res: "writeBatches now ?w1 0 (w_Batch w) = (e, w2)"
    by (cases "writeBatches now ?w1 0 (w_Batch w)")
  with writeBatches_log [of now ?w1 0 "w_Batch w"] have "w_log w2 = w_log w"
    by (simp add: emit_def)
  then show ?thesis
    using res by (cases e) (simp_all add: Writer_Write_def Let_def emit_def)
qed

lemma unknown_indicator_invalid:
  "r_Indicator r \<noteq> Debit \<Longrightarrow> r_Indicator r \<noteq> Credit \<Longrightarrow> \<not> IsValid r"
  by (simp add: IsValid_def)

lemma Writer_Write_ok_valid:
  assumes "fst (Writer_Write now w) = None"
  shows "w_Batch w \<noteq> []" and "list_all validBatch (w_Batch w)"
proof -
  show ne: "w_Batch w \<noteq> []"
    using assms by (auto simp: Writer_Write_def)
  show "list_all validBatch (w_Batch w)"
  proof (rule ccontr)
    assume "\<not> list_all validBatch (w_Batch w)"
    then have "\<exists>b \<in> set (w_Batch w). \<not> validBatch b" by (simp add: list_all_iff)
    from split_list_first_prop [OF this]
    obtain bpre batch bpost where bs: "w_Batch w = bpre @ batch # bpost"
      and nb: "\<not> validBatch batch" and pre: "\<forall>b \<in> set bpre. \<not> \<not> validBatch b" by blast
    from nb have "\<exists>r \<in> set (b_Records batch). \<not> IsValid r"
      by (simp add: validBatch_def list_all_iff)
    from split_list_first_prop [OF this]
    obtain rpre r rpost where rs: "b_Records batch = rpre @ r # rpost"
      and nr: "\<not> IsValid r" and rp: "\<forall>x \<in> set rpre. \<not> \<not> IsValid x" by blast
    have "list_all validBatch bpre" using pre by (simp add: list_all_iff)
    moreover have "list_all IsValid rpre" using rp by (simp add: list_all_iff)
    ultimately have "fst (Writer_Write now w) = Some (Errorf_InvalidRecord (length rpre))"
      using Writer_Write_invalid [OF bs _ rs _ nr, of now] by simp
    with assms show False by simp
  qed
qed

lemma tallyFile_pass:
  "tallyFile (w_OmitBatchTotals w) (allRecords (w_Batch w)) t = tallyFile False (passRecords w) t"
  by (simp add: tallyFile_def passRecords_def debits_def credits_def amounts_def count_def)

lemma Writer_Write_ok:
  assumes "fst (Writer_Write now w) = None"
  shows "snd (Writer_Write now w) =
     w\<lparr>w_FileTrailer := tallyFile False (passRecords w) (w_FileTrailer w),
       w_wr := w_wr (snd (Writer_Write now w))\<rparr>"
  by (simp add: Writer_Write_valid [OF Writer_Write_ok_valid [OF assms]] tallyFile_pass)

lemma Writer_Write_ok_again:
  assumes "fst (Writer_Write now w) = None"
  shows "fst (Writer_Write now' (snd (Writer_Write now w))) = None"
proof -
  note v = Writer_Write_ok_valid [OF assms]
  have "w_Batch (snd (Writer_Write now w)) = w_Batch w"
    by (simp add: Writer_Write_valid [OF v])
  with v have "w_Batch (snd (Writer_Write now w)) \<noteq> []"
    and "list_all validBatch (w_Batch (snd (Writer_Write now w)))" by simp_all
  from Writer_Write_valid [OF this] show ?thesis by simp
qed

lemma passRecords_frame:
  "passRecords (w\<lparr>w_FileTrailer := t, w_wr := out\<rparr>) = passRecords w"
  by (simp add: passRecords_def)

text \<open>
  Claim C10. A successful write leaves the batch list (so every batch header, record
  list and stored batch trailer), the file header, the two options and the customer
  fields of the file trailer as they were. Each of the four totals of the file trailer is
  its value before the call plus the sum of this pass (over no record when
  \<^verbatim>\<open>OmitBatchTotals\<close> is set). A second write on the writer so left succeeds as well and
  adds the same sums once more: from totals of zero, it doubles them.
\<close>

theorem Write_frame:
  assumes "fst (Writer_Write now w) = None"
  shows "w_Batch (snd (Writer_Write now w)) = w_Batch w
    \<and> w_FileHeader (snd (Writer_Write now w)) = w_FileHeader w
    \<and> w_OmitBatchTotals (snd (Writer_Write now w)) = w_OmitBatchTotals w
    \<and> w_CRLFLineEndings (snd (Writer_Write now w)) = w_CRLFLineEndings w
    \<and> ft_recordType (w_FileTrailer (snd (Writer_Write now w))) = ft_recordType (w_FileTrailer w)
    \<and> ft_CustomerNumber (w_FileTrailer (snd (Writer_Write now w)))
        = ft_CustomerNumber (w_FileTrailer w)
    \<and> ft_CustomerName (w_FileTrailer (snd (Writer_Write now w)))
        = ft_CustomerName (w_FileTrailer w)
    \<and> ft_TotalDebitTransactions (w_FileTrailer (snd (Writer_Write now w)))
        = ft_TotalDebitTransactions (w_FileTrailer w) + count (debits (passRecords w))
    \<and> ft_TotalCreditTransactions (w_FileTrailer (snd (Writer_Write now w)))
        = ft_TotalCreditTransactions (w_FileTrailer w) + count (credits (passRecords w))
    \<and> ft_TotalDebitAmount (w_FileTrailer (snd (Writer_Write now w)))
        = ft_TotalDebitAmount (w_FileTrailer w) + amounts (debits (passRecords w))
    \<and> ft_TotalCreditAmount (w_FileTrailer (snd (Writer_Write now w)))
        = ft_TotalCreditAmount (w_FileTrailer w) + amounts (credits (passRecords w))
    \<and> fst (Writer_Write now' (snd (Writer_Write now w))) = None
    \<and> ft_TotalDebitTransactions (w_FileTrailer (snd (Writer_Write now' (snd (Writer_Write now w)))))
        = ft_TotalDebitTransactions (w_FileTrailer w) + 2 * count (debits (passRecords w))
    \<and> ft_TotalCreditTransactions (w_FileTrailer (snd (Writer_Write now' (snd (Writer_Write now w)))))
        = ft_TotalCreditTransactions (w_FileTrailer w) + 2 * count (credits (passRecords w))
    \<and> ft_TotalDebitAmount (w_FileTrailer (snd (Writer_Write now' (snd (Writer_Write now w)))))
        = ft_TotalDebitAmount (w_FileTrailer w) + 2 * amounts (debits (passRecords w))
    \<and> ft_TotalCreditAmount (w_FileTrailer (snd (Writer_Write now' (snd (Writer_Write now w)))))
        = ft_TotalCreditAmount (w_FileTrailer w) + 2 * amounts (credits (passRecords w))"
proof -
  note one = Writer_Write_ok [OF assms]
  note again = Writer_Write_ok_again [OF assms, of now']
  note two = Writer_Write_ok [OF again]
  have pr: "passRecords (snd (Writer_Write now w)) = passRecords w"
    by (subst one) (rule passRecords_frame)
  have t1: "w_FileTrailer (snd (Writer_Write now w))
      = tallyFile False (passRecords w) (w_FileTrailer w)"
    by (subst one) simp
  have t2: "w_FileTrailer (snd (Writer_Write now' (snd (Writer_Write now w))))
      = tallyFile False (passRecords w) (tallyFile False (passRecords w) (w_FileTrailer w))"
    by (subst two) (simp add: pr t1)
  have f: "w_Batch (snd (Writer_Write now w)) = w_Batch w"
    "w_FileHeader (snd (Writer_Write now w)) = w_FileHeader w"
    "w_OmitBatchTotals (snd (Writer_Write now w)) = w_OmitBatchTotals w"
    "w_CRLFLineEndings (snd (Writer_Write now w)) = w_CRLFLineEndings w"
    by (subst one, simp)+
  show ?thesis
    by (simp add: f t1 t2 again tallyFile_def)
qed

theorem Write_frame_witness:
  "fst (Writer_Write demoClock demoWriter) = None
   \<and> w_Batch (snd (Writer_Write demoClock demoWriter)) = [demoBatch]
   \<and> ft_TotalDebitTransactions (w_FileTrailer (snd (Writer_Write demoClock demoWriter))) = 1
   \<and> ft_TotalCreditAmount (w_FileTrailer (snd (Writer_Write demoClock demoWriter))) = 1210
   \<and> ft_TotalDebitTransactions (w_FileTrailer
        (snd (Writer_Write demoClock (snd (Writer_Write demoClock demoWriter))))) = 2
   \<and> ft_TotalCreditAmount (w_FileTrailer
        (snd (Writer_Write demoClock (snd (Writer_Write demoClock demoWriter))))) = 2420"
proof -
  have ok: "fst (Writer_Write demoClock demoWriter) = None"
    by (simp add: Writer_Write_valid)
  have z: "ft_TotalDebitTransactions (w_FileTrailer demoWriter) = 0"
    "ft_TotalCreditAmount (w_FileTrailer demoWriter) = 0"
    using demoWriter_zero_totals by (simp_all add: zeroTotalsFile_def)
  have p: "count (debits (passRecords demoWriter)) = 1"
    "amounts (credits (passRecords demoWriter)) = 1210"
    by (simp_all add: passRecords_def demoBatch_def count_def amounts_def debits_def credits_def
        demoDebit_def demoCredit_def zeroRecord_def)
  from Write_frame [OF ok, of demoClock] ok show ?thesis
    by (simp add: z p)
qed

text \<open>
  Claim C3, as amended. A record whose indicator is neither \<^verbatim>\<open>DR\<close> nor \<^verbatim>\<open>CR\<close> fails
  the validity check that comes first in the loop. When it is the first such record the
  write meets, the write stops there with the invalid-record error carrying its index;
  the output ends with the lines of the records before it, the file trailer counts the
  records before it only, and nothing is logged: the warning of the switch is never
  reached.
\<close>

theorem Write_unknown_indicator:
  assumes "w_Batch w = bpre @ batch # bpost" and "list_all validBatch bpre"
    and "b_Records batch = pre @ r # post" and "list_all IsValid pre"
    and "r_Indicator r \<noteq> Debit" and "r_Indicator r \<noteq> Credit"
  shows "fst (Writer_Write now w) = Some (Errorf_InvalidRecord (length pre))
    \<and> w_wr (snd (Writer_Write now w)) =
        w_wr w @ FileHeader_Write (w_FileHeader w) @ eol w
        @ batchesOutput now (w_OmitBatchTotals w) (eol w) 0 bpre
        @ BatchHeader_Write (b_BatchHeader batch) @ eol w @ recordLines (eol w) pre
    \<and> w_FileTrailer (snd (Writer_Write now w)) =
        tallyFile (w_OmitBatchTotals w) (allRecords bpre @ pre) (w_FileTrailer w)
    \<and> w_log (snd (Writer_Write now w)) = w_log w"
  by (simp add: Writer_Write_invalid
      [OF assms(1,2,3,4) unknown_indicator_invalid [OF assms(5,6)]])

theorem Write_unknown_indicator_witness:
  "w_Batch demoBrokenWriter = [demoBatch] @ demoBrokenBatch # []
   \<and> list_all validBatch [demoBatch]
   \<and> b_Records demoBrokenBatch = [demoDebit] @ demoUnknown # [demoCredit]
   \<and> list_all IsValid [demoDebit]
   \<and> r_Indicator demoUnknown \<noteq> Debit \<and> r_Indicator demoUnknown \<noteq> Credit
   \<and> fst (Writer_Write demoClock demoBrokenWriter) = Some (Errorf_InvalidRecord 1)
   \<and> w_log (snd (Writer_Write demoClock demoBrokenWriter)) = []"
proof -
  have h1: "w_Batch demoBrokenWriter = [demoBatch] @ demoBrokenBatch # []"
    by (simp add: demoBrokenWriter_def)
  have h2: "list_all validBatch [demoBatch]" by simp
  have h3: "b_Records demoBrokenBatch = [demoDebit] @ demoUnknown # [demoCredit]"
    by (simp add: demoBrokenBatch_def)
  have h4: "list_all IsValid [demoDebit]" by simp
  have h5: "r_Indicator demoUnknown \<noteq> Debit" and h6: "r_Indicator demoUnknown \<noteq> Credit"
    by (simp_all add: demoUnknown_def Debit_def Credit_def)
  from Write_unknown_indicator [OF h1 h2 h3 h4 h5 h6, of demoClock]
  have "fst (Writer_Write demoClock demoBrokenWriter) = Some (Errorf_InvalidRecord 1)
    \<and> w_log (snd (Writer_Write demoClock demoBrokenWriter)) = []"
    by (simp add: demoBrokenWriter_def)
  with h1 h2 h3 h4 h5 h6 show ?thesis by (intro conjI) simp_all
qed

text \<open>
  The claim as it was stated fails on the sample writer whose second batch holds a
  record with the indicator \<^verbatim>\<open>XX\<close> between two valid records: the write returns the
  invalid-record error for index 1, the output ends with the line of the record before
  it, and the log is empty.
\<close>

theorem Write_unknown_indicator_counterexample:
  "r_Indicator demoUnknown = ''XX''
   \<and> w_Batch demoBrokenWriter = [demoBatch, demoBrokenBatch]
   \<and> b_Records demoBrokenBatch = [demoDebit, demoUnknown, demoCredit]
   \<and> fst (Writer_Write demoClock demoBrokenWriter) = Some (Errorf_InvalidRecord 1)
   \<and> w_wr (snd (Writer_Write demoClock demoBrokenWriter)) =
        FileHeader_Write (w_FileHeader demoBrokenWriter) @ [CHR 0x0A]
        @ batchOutput demoClock False [CHR 0x0A] 0 demoBatch
        @ BatchHeader_Write (b_BatchHeader demoBrokenBatch) @ [CHR 0x0A]
        @ Record_Write demoDebit @ [CHR 0x0A]
   \<and> w_log (snd (Writer_Write demoClock demoBrokenWriter)) = []"
proof -
  have h1: "w_Batch demoBrokenWriter = [demoBatch] @ demoBrokenBatch # []"
    by (simp add: demoBrokenWriter_def)
  have h2: "list_all validBatch [demoBatch]" by simp
  have h3: "b_Records demoBrokenBatch = [demoDebit] @ demoUnknown # [demoCredit]"
    by (simp add: demoBrokenBatch_def)
  have h4: "list_all IsValid [demoDebit]" by simp
  have h5: "\<not> IsValid demoUnknown" by simp
  have h6: "r_Indicator demoUnknown = ''XX''" by (simp add: demoUnknown_def)
  note run = Writer_Write_invalid [OF h1 h2 h3 h4 h5, of demoClock]
  have e: "eol demoBrokenWriter = [CHR 0x0A]" "\<not> w_OmitBatchTotals demoBrokenWriter"
    "w_wr demoBrokenWriter = []" "w_log demoBrokenWriter = []"
    by (simp_all add: eol_def demoBrokenWriter_def)
  show ?thesis
    using h1 h3 h6 by (simp add: run e recordLines_def)
qed

section \<open>Facts about the codec\<close>

subsection \<open>Digits\<close>

lemma isDigit_digitChar: "d < 10 \<Longrightarrow> isDigit (digitChar d)"
  by (simp add: isDigit_def digitChar_def)

lemma digitVal_digitChar: "d < 10 \<Longrightarrow> digitVal (digitChar d) = d"
  by (simp add: digitVal_def digitChar_def)

lemma digits_all: "list_all isDigit (digits n)"
  by (induction n rule: digits.induct) (subst digits.simps, simp add: isDigit_digitChar)

lemma digits_nonempty: "digits n \<noteq> []"
  by (subst digits.simps) simp

lemma digitsVal_snoc: "digitsVal (s @ [c]) = digitsVal s * 10 + digitVal c"
  by (simp add: digitsVal_def)

lemma digitsVal_digits: "digitsVal (digits n) = n"
proof (induction n rule: digits.induct)
  case (1 n)
  show ?case
  proof (cases "n < 10")
    case True
    then show ?thesis
      by (subst digits.simps) (simp add: digitsVal_def digitVal_digitChar)
  next
    case False
    then have "digitsVal (digits (n div 10)) = n div 10" using 1 by simp
    with False show ?thesis
      by (subst digits.simps) (simp add: digitsVal_snoc digitVal_digitChar)
  qed
qed

lemma length_digits: "n < 10 ^ k \<Longrightarrow> 0 < k \<Longrightarrow> length (digits n) \<le> k"
proof (induction n arbitrary: k rule: digits.induct)
  case (1 n)
  show ?case
  proof (cases "n < 10")
    case True
    then show ?thesis using 1(3) by (subst digits.simps) simp
  next
    case False
    obtain j where k: "k = Suc j" using 1(3) by (cases k) auto
    from False 1(2) have "j > 0" unfolding k by (cases j) auto
    moreover have "n div 10 < 10 ^ j" using 1(2) unfolding k by (simp add: less_mult_imp_div_less)
    ultimately have "length (digits (n div 10)) \<le> j" using 1(1) [OF False] by simp
    with False show ?thesis unfolding k by (subst digits.simps) simp
  qed
qed

lemma digitsVal_zeros: "digitsVal (replicate k (CHR ''0'') @ s) = digitsVal s"
proof -
  have "foldl (\<lambda>a c. a * 10 + digitVal c) 0 (replicate k (CHR ''0'')) = 0"
    by (induction k) (simp_all add: digitVal_def)
  then show ?thesis by (simp add: digitsVal_def)
qed

lemma isDigit_not_space: "isDigit c \<Longrightarrow> \<not> spaceByte c"
  by (auto simp: isDigit_def spaceByte_def IsSpace_def)

subsection \<open>Runes of ASCII text\<close>

lemma isASCII_simps [simp]:
  "isASCII []" "isASCII (c # s) \<longleftrightarrow> (of_char c :: nat) < 128 \<and> isASCII s"
  "isASCII (s @ t) \<longleftrightarrow> isASCII s \<and> isASCII t"
  "(of_char c :: nat) < 128 \<Longrightarrow> isASCII (replicate n c)"
  by (auto simp: isASCII_def list_all_iff)

lemma isASCII_take: "isASCII s \<Longrightarrow> isASCII (take n s)"
  and isASCII_drop: "isASCII s \<Longrightarrow> isASCII (drop n s)"
  and isASCII_dropWhile: "isASCII s \<Longrightarrow> isASCII (dropWhile P s)"
  by (auto simp: isASCII_def list_all_iff dest: in_set_takeD in_set_dropD set_dropWhileD)

lemma isASCII_all_digits: "list_all isDigit s \<Longrightarrow> isASCII s"
  by (auto simp: isASCII_def list_all_iff isDigit_def)

lemma isASCII_digits [simp]: "isASCII (digits n)"
  by (rule isASCII_all_digits) (rule digits_all)

lemma runes_concat: "concat (map snd (runes s)) = s"
proof (induction s rule: runes.induct)
  case (1 s)
  show ?case
  proof (cases "s = []")
    case True
    then show ?thesis by (subst runes.simps) simp
  next
    case False
    obtain r wd where d: "DecodeRuneInString s = (r, wd)" by (cases "DecodeRuneInString s")
    from 1 [OF False d [symmetric]] False d show ?thesis
      by (subst runes.simps) simp
  qed
qed

lemma runes_ascii: "isASCII s \<Longrightarrow> runes s = map (\<lambda>c. (of_char c, [c])) s"
proof (induction s)
  case Nil
  show ?case by (subst runes.simps) simp
next
  case (Cons c s)
  then have c: "(of_char c :: nat) < 0x80" and s: "isASCII s" by simp_all
  have "DecodeRuneInString (c # s) = (of_char c, 1)"
    using c by (simp add: DecodeRuneInString_def Let_def)
  then show ?case using Cons.IH [OF s] by (subst runes.simps) simp
qed

lemma concat_singletons: "concat (map (\<lambda>c. [c]) s) = s"
  by (induction s) simp_all

lemma RuneCountInString_ascii: "isASCII s \<Longrightarrow> RuneCountInString s = length s"
  by (simp add: RuneCountInString_def runes_ascii)

lemma truncateString_ascii: "isASCII s \<Longrightarrow> truncateString n s = take n s"
  by (simp add: truncateString_def runes_ascii take_map comp_def concat_singletons)

lemma truncateString_prefix: "\<exists>t. s = truncateString n s @ t"
proof -
  have "concat (map snd (runes s)) =
      concat (map snd (take n (runes s))) @ concat (map snd (drop n (runes s)))"
    by (simp flip: concat_append map_append)
  then show ?thesis by (auto simp: truncateString_def runes_concat)
qed

lemma TrimLeftFunc_ascii: "isASCII s \<Longrightarrow> TrimLeftFunc IsSpace s = dropWhile spaceByte s"
  by (simp add: TrimLeftFunc_def runes_ascii dropWhile_map comp_def concat_singletons
      spaceByte_def [abs_def])

lemma DecodeLastRuneInString_ascii:
  "(of_char c :: nat) < 0x80 \<Longrightarrow> DecodeLastRuneInString (s @ [c]) = (of_char c, 1)"
  by (simp add: DecodeLastRuneInString_def Let_def)

lemma lastIndexFunc_ascii:
  "isASCII s \<Longrightarrow> lastIndexFunc IsSpace s =
     (let t = rev (dropWhile spaceByte (rev s)) in if t = [] then None else Some (length t - 1))"
proof (induction s rule: rev_induct)
  case Nil
  show ?case by (subst lastIndexFunc.simps) simp
next
  case (snoc c s)
  then have c: "(of_char c :: nat) < 0x80" and s: "isASCII s" by simp_all
  show ?case
    using snoc.IH [OF s]
    by (subst lastIndexFunc.simps)
       (simp add: DecodeLastRuneInString_ascii [OF c] Let_def spaceByte_def [abs_def])
qed

lemma TrimRightFunc_ascii:
  assumes "isASCII s"
  shows "TrimRightFunc IsSpace s = rev (dropWhile spaceByte (rev s))"
proof -
  define t where "t = rev (dropWhile spaceByte (rev s))"
  have "rev s = takeWhile spaceByte (rev s) @ dropWhile spaceByte (rev s)" by simp
  then have "s = t @ rev (takeWhile spaceByte (rev s))"
    unfolding t_def by (metis rev_append rev_rev_ident)
  then obtain u where s: "s = t @ u" by blast
  show ?thesis
  proof (cases "t = []")
    case True
    then show ?thesis
      using assms by (simp add: TrimRightFunc_def lastIndexFunc_ascii Let_def flip: t_def)
  next
    case False
    then have "s ! (length t - 1) = last t"
      by (simp add: s nth_append last_conv_nth)
    moreover have "set t \<subseteq> set s" by (simp add: s)
    then have "(of_char (last t) :: nat) < 0x80"
      using assms last_in_set [OF False] by (auto simp: isASCII_def list_all_iff)
    ultimately show ?thesis
      using assms False
      by (simp add: TrimRightFunc_def lastIndexFunc_ascii Let_def flip: t_def) (simp add: s)
  qed
qed

lemma TrimSpace_ascii:
  "isASCII s \<Longrightarrow> TrimSpace s = rev (dropWhile spaceByte (rev (dropWhile spaceByte s)))"
  by (simp add: TrimSpace_def TrimLeftFunc_ascii TrimRightFunc_ascii isASCII_dropWhile)

lemma fmtPad_ascii:
  "isASCII s \<Longrightarrow> fmtPad left zeros wid s =
     (if left then s @ replicate (wid - length s) (CHR '' '')
      else replicate (wid - length s) (if zeros then CHR ''0'' else CHR '' '') @ s)"
  by (simp add: fmtPad_def RuneCountInString_ascii)

lemma fmtS_ascii:
  "isASCII s \<Longrightarrow> fmtS left zeros wid prec s =
     fmtPad left zeros wid (case prec of None \<Rightarrow> s | Some p \<Rightarrow> take p s)"
  by (cases prec) (simp_all add: fmtS_def truncateString_ascii)

subsection \<open>White space\<close>

lemma spaceByte_blank [simp]: "spaceByte (CHR '' '')"
  by (simp add: spaceByte_def IsSpace_def)

lemma TrimSpace_trimmed:
  assumes "isASCII s" and "trimmed s"
  shows "TrimSpace s = s"
proof (cases s rule: rev_cases)
  case Nil
  then show ?thesis by (simp add: TrimSpace_ascii)
next
  case (snoc ys y)
  with assms(2) have h: "\<not> spaceByte (hd s)" and l: "\<not> spaceByte y"
    by (simp_all add: trimmed_def)
  from snoc have "s \<noteq> []" by simp
  with h have "dropWhile spaceByte s = s" by (cases s) simp_all
  moreover have "dropWhile spaceByte (rev s) = rev s" using l snoc by simp
  ultimately show ?thesis by (simp add: TrimSpace_ascii [OF assms(1)])
qed

lemma TrimSpace_blanks_left:
  "isASCII s \<Longrightarrow> TrimSpace (replicate n (CHR '' '') @ s) = TrimSpace s"
  by (simp add: TrimSpace_ascii dropWhile_append3 dropWhile_append)

lemma TrimSpace_blanks_right:
  assumes "isASCII s"
  shows "TrimSpace (s @ replicate n (CHR '' '')) = TrimSpace s"
proof -
  have a: "isASCII (s @ replicate n (CHR '' ''))" using assms by simp
  show ?thesis
  proof (cases "\<forall>c \<in> set s. spaceByte c")
    case True
    then show ?thesis
      by (auto simp: TrimSpace_ascii [OF a] TrimSpace_ascii [OF assms] dropWhile_append
          dest: set_dropWhileD)
  next
    case False
    then have "dropWhile spaceByte (s @ replicate n (CHR '' '')) =
        dropWhile spaceByte s @ replicate n (CHR '' '')"
      by (auto simp: dropWhile_append)
    then show ?thesis
      by (simp add: TrimSpace_ascii [OF a] TrimSpace_ascii [OF assms] dropWhile_append)
  qed
qed

lemma TrimSpace_fmtPad:
  "isASCII s \<Longrightarrow> trimmed s \<Longrightarrow> TrimSpace (fmtPad left False wid s) = s"
  by (simp add: fmtPad_ascii TrimSpace_blanks_left TrimSpace_blanks_right TrimSpace_trimmed)

lemma TrimSpace_fmtS:
  "isASCII s \<Longrightarrow> trimmed s \<Longrightarrow> length s \<le> p \<Longrightarrow>
     TrimSpace (fmtS left False wid (Some p) s) = s"
  by (simp add: fmtS_ascii TrimSpace_fmtPad)

lemma TrimSpace_fmtS_noprec:
  "isASCII s \<Longrightarrow> trimmed s \<Longrightarrow> TrimSpace (fmtS left False wid None s) = s"
  by (simp add: fmtS_ascii TrimSpace_fmtPad)

lemma length_fmtS:
  "isASCII s \<Longrightarrow> length s \<le> wid \<Longrightarrow> length (fmtS left zeros wid (Some wid) s) = wid"
  by (simp add: fmtS_ascii fmtPad_ascii)

lemma length_fmtS_noprec:
  "isASCII s \<Longrightarrow> length s \<le> wid \<Longrightarrow> length (fmtS left zeros wid None s) = wid"
  by (simp add: fmtS_ascii fmtPad_ascii)

lemma fmtS_verbatim [simp]: "fmtS False False 0 None s = s"
  by (simp add: fmtS_def fmtPad_def)

lemma spaces_eq: "spaces n = replicate n (CHR '' '')"
  by (simp add: spaces_def padBlank_def)

subsection \<open>Integers\<close>

lemma isDigit_not_sign: "isDigit c \<Longrightarrow> c \<noteq> CHR ''-'' \<and> c \<noteq> CHR ''+''"
  by (auto simp: isDigit_def)

lemma parseInt_digits:
  "s \<noteq> [] \<Longrightarrow> list_all isDigit s \<Longrightarrow> parseInt s = Some (int (digitsVal s))"
  by (cases s) (auto simp: parseInt_def parseUint_def dest: isDigit_not_sign)

lemma list_all_zeros_digits: "list_all isDigit (replicate k (CHR ''0'') @ digits n)"
proof -
  have "list_all isDigit (replicate k (CHR ''0''))" by (simp add: list_all_iff isDigit_def)
  then show ?thesis by (simp add: digits_all)
qed

lemma trimmed_digits: "s \<noteq> [] \<Longrightarrow> list_all isDigit s \<Longrightarrow> trimmed s"
  using hd_in_set [of s] last_in_set [of s]
  by (auto simp: trimmed_def list_all_iff isDigit_not_space)

lemma fmtD_nonneg:
  assumes "0 \<le> sint x" and "prec \<noteq> Some 0"
  shows "\<exists>k. fmtD left zeros wid prec x =
           fmtPad left False wid (replicate k (CHR ''0'') @ digits (nat (sint x)))"
  using assms by (auto simp: fmtD_def Let_def)

lemma Atoi_zeros_digits:
  assumes "0 \<le> sint x"
  shows "Atoi (replicate k (CHR ''0'') @ digits (nat (sint x))) = x"
proof -
  let ?s = "replicate k (CHR ''0'') @ digits (nat (sint x))"
  have "?s \<noteq> []" by (simp add: digits_nonempty)
  then have "parseInt ?s = Some (int (digitsVal ?s))"
    by (rule parseInt_digits) (rule list_all_zeros_digits)
  also have "digitsVal ?s = nat (sint x)" by (simp add: digitsVal_zeros digitsVal_digits)
  finally have p: "parseInt ?s = Some (sint x)" using assms by simp
  have "sint x \<le> 2 ^ 63 - 1" using sint_lt [of x] by simp
  then show ?thesis using assms by (simp add: Atoi_def p)
qed

lemma Atoi_fmtD:
  assumes "0 \<le> sint x" and "prec \<noteq> Some 0"
  shows "Atoi (TrimSpace (fmtD left zeros wid prec x)) = x"
proof -
  from fmtD_nonneg [OF assms] obtain k where
    f: "fmtD left zeros wid prec x =
          fmtPad left False wid (replicate k (CHR ''0'') @ digits (nat (sint x)))" by blast
  have "trimmed (replicate k (CHR ''0'') @ digits (nat (sint x)))"
    by (rule trimmed_digits, simp add: digits_nonempty, rule list_all_zeros_digits)
  moreover have "isASCII (replicate k (CHR ''0'') @ digits (nat (sint x)))"
    by (rule isASCII_all_digits) (rule list_all_zeros_digits)
  ultimately show ?thesis
    by (simp only: f TrimSpace_fmtPad Atoi_zeros_digits [OF assms(1)])
qed

lemma length_fmtD:
  assumes "0 \<le> sint x" and "sint x < 10 ^ wid" and "0 < p" and "p \<le> wid"
  shows "length (fmtD left zeros wid (Some p) x) = wid"
proof -
  have "nat (sint x) < 10 ^ wid" using assms(1,2) by (simp add: nat_less_iff)
  then have "length (digits (nat (sint x))) \<le> wid"
    using assms(3,4) by (intro length_digits) simp_all
  then show ?thesis
    using assms by (auto simp: fmtD_def Let_def fmtPad_ascii)
qed

lemma fmtD_plain:
  assumes "0 \<le> sint x" and "sint x < 10"
  shows "fmtD False False 0 None x = [digitChar (nat (sint x))]"
proof -
  have "nat (sint x) < 10" using assms by simp
  then have "digits (nat (sint x)) = [digitChar (nat (sint x))]"
    by (subst digits.simps) simp
  then show ?thesis using assms by (simp add: fmtD_def Let_def fmtPad_def)
qed

lemma Atoi_digit:
  assumes "0 \<le> sint x" and "sint x < 10"
  shows "Atoi (TrimSpace [digitChar (nat (sint x))]) = x"
proof -
  have "nat (sint x) < 10" using assms by simp
  then have d: "[digitChar (nat (sint x))] = replicate 0 (CHR ''0'') @ digits (nat (sint x))"
    by (subst digits.simps) simp
  have "trimmed [digitChar (nat (sint x))]"
    using assms by (simp add: trimmed_def isDigit_not_space isDigit_digitChar)
  moreover have "isASCII [digitChar (nat (sint x))]"
    using assms by (intro isASCII_all_digits) (simp add: isDigit_digitChar)
  ultimately show ?thesis
    by (simp only: TrimSpace_trimmed) (simp only: d Atoi_zeros_digits [OF assms(1)])
qed

subsection \<open>Amounts\<close>

lemma roundBank_int: "roundBank (of_int v) = v"
  by (simp add: roundBank_def)

lemma NewFromString_plain:
  assumes "ip \<noteq> []" and "list_all isDigit ip" and "list_all isDigit fp" and "length fp = 2"
  shows "NewFromString (ip @ ''.'' @ fp) = of_int (int (digitsVal (ip @ fp))) / 100"
proof -
  let ?isE = "\<lambda>c. c = CHR ''e'' \<or> c = CHR ''E''"
  have noE: "\<forall>c \<in> set (ip @ ''.'' @ fp). \<not> ?isE c"
    using assms(2,3) by (auto simp: list_all_iff isDigit_def)
  have nodot: "\<forall>c \<in> set ip. c \<noteq> CHR ''.''" "\<forall>c \<in> set fp. c \<noteq> CHR ''.''"
    using assms(2,3) by (auto simp: list_all_iff isDigit_def)
  have m: "takeWhile (\<lambda>c. \<not> ?isE c) (ip @ ''.'' @ fp) = ip @ ''.'' @ fp"
    using noE by simp
  have r: "dropWhile (\<lambda>c. \<not> ?isE c) (ip @ ''.'' @ fp) = []"
    using noE by simp
  have dots: "filter (\<lambda>c. c = CHR ''.'') (ip @ ''.'' @ fp) = ''.''"
    using nodot by (simp add: filter_empty_conv)
  have tw: "takeWhile (\<lambda>c. c \<noteq> CHR ''.'') (ip @ ''.'' @ fp) = ip"
    using nodot(1) by (simp add: takeWhile_append)
  have p: "parseInt (ip @ fp) = Some (int (digitsVal (ip @ fp)))"
    using assms by (intro parseInt_digits) simp_all
  show ?thesis
    unfolding NewFromString_def Let_def m r dots tw
    by (simp add: p assms(4) pow10_def)
qed

lemma StringFixedBank2_wf:
  assumes "wfAmount d"
  shows "\<exists>ip fp. StringFixedBank2 d = ip @ ''.'' @ fp \<and> ip \<noteq> [] \<and> list_all isDigit ip
    \<and> list_all isDigit fp \<and> length fp = 2 \<and> of_int (int (digitsVal (ip @ fp))) / 100 = d
    \<and> length (ip @ ''.'' @ fp) \<le> 16"
proof -
  define v where "v = \<lfloor>d * 100\<rfloor>"
  define n where "n = nat v"
  define str where "str = digits n"
  have dv: "d * 100 = of_int v" using assms by (auto simp: wfAmount_def v_def)
  have v0: "0 \<le> v" using assms by (simp add: wfAmount_def v_def)
  have rb: "roundBank (d * 100) = v" by (simp only: dv roundBank_int)
  have nv: "nat \<bar>v\<bar> = n" using v0 by (simp add: n_def)
  have "d * 100 < 10 ^ 15" using assms by (simp add: wfAmount_def)
  then have "(of_int v :: rat) < of_int (10 ^ 15)" by (simp add: dv)
  then have "v < 10 ^ 15" by (simp only: of_int_less_iff)
  then have "n < 10 ^ 15" using v0 by (simp add: n_def nat_less_iff)
  then have len: "length str \<le> 15" unfolding str_def by (rule length_digits) simp
  have ne: "str \<noteq> []" by (simp add: str_def digits_nonempty)
  have dig: "list_all isDigit str" by (simp add: str_def digits_all)
  have val: "(of_int (int n) :: rat) / 100 = d" using dv v0 by (simp add: n_def)
  have sfb: "StringFixedBank2 d =
      (if length str > 2 then take (length str - 2) str else ''0'') @ ''.'' @
      (if length str > 2 then drop (length str - 2) str
       else replicate (2 - length str) (CHR ''0'') @ str)"
    unfolding str_def n_def using v0 by (simp add: StringFixedBank2_def rb Let_def)
  show ?thesis
  proof (cases "length str > 2")
    case True
    let ?ip = "take (length str - 2) str" and ?fp = "drop (length str - 2) str"
    have "list_all isDigit ?ip" "list_all isDigit ?fp"
      using dig by (auto simp: list_all_iff dest: in_set_takeD in_set_dropD)
    moreover have "?ip \<noteq> []" using True ne by simp
    moreover have "length ?fp = 2" using True by simp
    moreover have "digitsVal (?ip @ ?fp) = n" by (simp add: str_def digitsVal_digits)
    moreover have "length (?ip @ ''.'' @ ?fp) \<le> 16" using len by simp
    ultimately show ?thesis using True val
      by (intro exI [of _ ?ip] exI [of _ ?fp]) (simp add: sfb)
  next
    case False
    let ?fp = "replicate (2 - length str) (CHR ''0'') @ str"
    have z: "list_all isDigit (replicate (2 - length str) (CHR ''0''))"
      by (simp add: list_all_iff isDigit_def)
    have "''0'' @ ?fp = replicate (3 - length str) (CHR ''0'') @ str"
      using False by (simp add: Suc_diff_le flip: replicate_Suc)
    then have "digitsVal (''0'' @ ?fp) = n"
      by (simp only: digitsVal_zeros) (simp add: str_def digitsVal_digits)
    moreover have "list_all isDigit ?fp" using z dig by simp
    moreover have "length ?fp = 2" using False by simp
    moreover have "list_all isDigit ''0''" by (simp add: isDigit_def)
    ultimately show ?thesis using False val
      by (intro exI [of _ "''0''"] exI [of _ ?fp]) (simp add: sfb)
  qed
qed

lemma no_space_trimmed:
  "s \<noteq> [] \<Longrightarrow> \<not> spaceByte (hd s) \<Longrightarrow> \<not> spaceByte (last s) \<Longrightarrow> trimmed s"
  by (simp add: trimmed_def)

lemma amount_roundtrip:
  assumes "wfAmount d"
  shows "NewFromString (TrimSpace (fmtS left False 16 (Some 16) (StringFixedBank2 d))) = d"
    and "length (fmtS left False 16 (Some 16) (StringFixedBank2 d)) = 16"
proof -
  from StringFixedBank2_wf [OF assms] obtain ip fp where
    s: "StringFixedBank2 d = ip @ ''.'' @ fp" and ne: "ip \<noteq> []" and di: "list_all isDigit ip"
    and df: "list_all isDigit fp" and lf: "length fp = 2"
    and val: "of_int (int (digitsVal (ip @ fp))) / 100 = d"
    and len: "length (ip @ ''.'' @ fp) \<le> 16" by blast
  have fpne: "fp \<noteq> []" using lf by auto
  have "\<not> spaceByte (hd ip)" using ne di hd_in_set [of ip]
    by (auto simp: list_all_iff isDigit_not_space)
  moreover have "\<not> spaceByte (last fp)" using fpne df last_in_set [of fp]
    by (auto simp: list_all_iff isDigit_not_space)
  ultimately have t: "trimmed (ip @ ''.'' @ fp)"
    using ne fpne by (simp add: trimmed_def)
  have a: "isASCII (ip @ ''.'' @ fp)"
    using isASCII_all_digits [OF di] isASCII_all_digits [OF df] by simp
  show "NewFromString (TrimSpace (fmtS left False 16 (Some 16) (StringFixedBank2 d))) = d"
    by (simp only: s TrimSpace_fmtS [OF a t len] NewFromString_plain [OF ne di df lf] val)
  show "length (fmtS left False 16 (Some 16) (StringFixedBank2 d)) = 16"
    by (simp only: s length_fmtS [OF a len])
qed

subsection \<open>Dates\<close>

lemma appendInt_nonneg:
  assumes "0 \<le> x" and "x < 10 ^ w" and "0 < w"
  shows "length (appendInt x w) = w" and "list_all isDigit (appendInt x w)"
    and "digitsVal (appendInt x w) = nat x"
proof -
  have "nat x < 10 ^ w" using assms by (simp add: nat_less_iff)
  then have l: "length (digits (nat x)) \<le> w" using assms(3) by (rule length_digits)
  have a: "appendInt x w = replicate (w - length (digits (nat x))) (CHR ''0'') @ digits (nat x)"
    using assms(1) by (simp add: appendInt_def Let_def)
  show "length (appendInt x w) = w" using l by (simp add: a)
  show "list_all isDigit (appendInt x w)" by (simp only: a list_all_zeros_digits)
  show "digitsVal (appendInt x w) = nat x" by (simp only: a digitsVal_zeros digitsVal_digits)
qed

lemma date_roundtrip:
  assumes "wfDate t"
  shows "Parse (TrimSpace (fmtS left False 8 (Some 8) (Format t))) = t"
    and "length (fmtS left False 8 (Some 8) (Format t)) = 8"
proof -
  let ?y = "appendInt (year t) 4" and ?m = "appendInt (int (month t)) 2"
    and ?d = "appendInt (int (day t)) 2"
  have dm: "day t \<le> 31" using assms by (auto simp: wfDate_def daysIn_def split: if_splits)
  have y: "length ?y = 4" "list_all isDigit ?y" "digitsVal ?y = nat (year t)"
    using assms by (simp_all add: appendInt_nonneg wfDate_def)
  have m: "length ?m = 2" "list_all isDigit ?m" "digitsVal ?m = month t"
    using assms by (simp_all add: appendInt_nonneg wfDate_def)
  have d: "length ?d = 2" "list_all isDigit ?d" "digitsVal ?d = day t"
    using dm by (simp_all add: appendInt_nonneg)
  have f: "Format t = ?y @ ?m @ ?d" by (simp add: Format_def)
  have len: "length (Format t) = 8" by (simp add: f y m d)
  have dig: "list_all isDigit (Format t)" by (simp add: f y m d)
  have "Format t \<noteq> []" using len by auto
  then have tr: "trimmed (Format t)" using dig by (rule trimmed_digits)
  have asc: "isASCII (Format t)" using dig by (rule isASCII_all_digits)
  have parts: "take 4 (Format t) = ?y" "take 2 (drop 4 (Format t)) = ?m" "drop 6 (Format t) = ?d"
    by (simp_all add: f y m d)
  have "Parse (Format t) = t"
    using assms by (simp add: Parse_def len dig parts y m d Let_def wfDate_def)
  then show "Parse (TrimSpace (fmtS left False 8 (Some 8) (Format t))) = t"
    using tr len asc by (simp add: TrimSpace_fmtS)
  show "length (fmtS left False 8 (Some 8) (Format t)) = 8"
    using len asc by (simp add: length_fmtS)
qed

subsection \<open>Columns\<close>

lemma padBlank_exact: "length s = n \<Longrightarrow> padBlank s n = s"
  by (simp add: padBlank_def)

lemma slice_Cons: "0 < i \<Longrightarrow> slice (c # l) i j = slice l (i - 1) (j - 1)"
  by (cases i) (simp_all add: slice_def)

lemma slice_skip: "length a \<le> i \<Longrightarrow> slice (a @ l) i j = slice l (i - length a) (j - length a)"
  by (simp add: slice_def)

lemma slice_take: "length a = j \<Longrightarrow> slice (a @ l) 0 j = a"
  by (simp add: slice_def)

lemma slice_take_Cons: "slice (c # l) 0 (Suc 0) = [c]"
  by (simp add: slice_def)

lemma text_field:
  assumes "wfText w s"
  shows "length (fmtS left False w (Some w) s) = w"
    and "TrimSpace (fmtS left False w (Some w) s) = s"
  using assms by (simp_all add: wfText_def length_fmtS TrimSpace_fmtS)

lemma BatchHeader_roundtrip:
  assumes wf: "wfBatchHeader h" and nl: "length nl = 1 \<or> length nl = 2"
  shows "BatchHeader_Read h0 (BatchHeader_Write h @ nl) =
     (None, h\<lparr>bh_recordType := bh_recordType h0\<rparr>)"
proof -
  define f1 where "f1 = fmtS True False 7 (Some 7) (bh_BSBNumber h)"
  define f2 where "f2 = fmtS True False 9 (Some 9) (bh_AccountNumber h)"
  define f3 where "f3 = fmtS True False 35 (Some 35) (bh_AccountName h)"
  define f4 where "f4 = fmtS False False 8 (Some 8) (Format (bh_TransactionDate h))"
  define f5 where "f5 = fmtS False False 16 (Some 16) (StringFixedBank2 (bh_Amount h))"
  define f6 where "f6 = fmtS False False 2 (Some 2) (bh_Indicator h)"
  note defs = f1_def f2_def f3_def f4_def f5_def f6_def
  have len: "length f1 = 7" "length f2 = 9" "length f3 = 35" "length f4 = 8"
    "length f5 = 16" "length f6 = 2"
    using wf unfolding defs wfBatchHeader_def
    by (simp_all add: text_field date_roundtrip amount_roundtrip)
  have val: "TrimSpace f1 = bh_BSBNumber h" "TrimSpace f2 = bh_AccountNumber h"
    "TrimSpace f3 = bh_AccountName h" "Parse (TrimSpace f4) = bh_TransactionDate h"
    "NewFromString (TrimSpace f5) = bh_Amount h" "TrimSpace f6 = bh_Indicator h"
    using wf unfolding defs wfBatchHeader_def
    by (simp_all add: text_field date_roundtrip amount_roundtrip)
  have line: "BatchHeader_Write h = CHR ''1'' # f1 @ f2 @ f3 @ f4 @ f5 @ f6 @ replicate 92 (CHR '' '')"
    unfolding BatchHeader_Write_def defs [symmetric]
    by (simp add: padBlank_exact len spaces_eq)
  have total: "length (BatchHeader_Write h @ nl) = 171 \<or> length (BatchHeader_Write h @ nl) = 172"
    using nl by (auto simp: line len)
  have "BatchHeader_Read h0 (BatchHeader_Write h @ nl) =
     (None, h0\<lparr>bh_BSBNumber := bh_BSBNumber h, bh_AccountNumber := bh_AccountNumber h,
        bh_AccountName := bh_AccountName h, bh_TransactionDate := bh_TransactionDate h,
        bh_Amount := bh_Amount h, bh_Indicator := bh_Indicator h\<rparr>)"
    using total unfolding BatchHeader_Read_def
    by (auto simp: line slice_Cons slice_skip slice_take len val)
  also have "h0\<lparr>bh_BSBNumber := bh_BSBNumber h, bh_AccountNumber := bh_AccountNumber h,
        bh_AccountName := bh_AccountName h, bh_TransactionDate := bh_TransactionDate h,
        bh_Amount := bh_Amount h, bh_Indicator := bh_Indicator h\<rparr>
      = h\<lparr>bh_recordType := bh_recordType h0\<rparr>"
    by (rule BatchHeader.equality) simp_all
  finally show ?thesis .
qed

lemma text_field_noprec:
  assumes "wfText w s"
  shows "length (fmtS left False w None s) = w"
    and "TrimSpace (fmtS left False w None s) = s"
  using assms by (simp_all add: wfText_def length_fmtS_noprec TrimSpace_fmtS_noprec)

lemma int_field:
  assumes "wfInt w x" and "0 < p" and "p \<le> w"
  shows "length (fmtD left zeros w (Some p) x) = w"
    and "Atoi (TrimSpace (fmtD left zeros w (Some p) x)) = x"
  using assms by (simp_all add: wfInt_def length_fmtD Atoi_fmtD)

lemma tag_field:
  assumes "wfInt 1 x"
  shows "fmtD False False 0 None x = [digitChar (nat (sint x))]"
    and "Atoi (TrimSpace [digitChar (nat (sint x))]) = x"
  using assms by (simp_all add: wfInt_def fmtD_plain Atoi_digit)

lemma zero_filled_field:
  assumes "wfText 8 s"
  shows "fmtS False True 8 (Some 8) s = zeroFilled s"
    and "length (zeroFilled s) = 8" and "TrimSpace (zeroFilled s) = zeroFilled s"
proof -
  have l: "length s \<le> 8" and t: "trimmed s" and a: "isASCII s"
    using assms by (simp_all add: wfText_def)
  show "fmtS False True 8 (Some 8) s = zeroFilled s"
    using l a by (simp add: fmtS_ascii fmtPad_ascii zeroFilled_def)
  show "length (zeroFilled s) = 8" using l by (simp add: zeroFilled_def)
  have "trimmed (zeroFilled s)"
  proof (cases "s = []")
    case True
    then show ?thesis by (simp add: zeroFilled_def trimmed_def spaceByte_def IsSpace_def)
  next
    case False
    with t have "\<not> spaceByte (hd s)" "\<not> spaceByte (last s)" by (simp_all add: trimmed_def)
    with False show ?thesis
      by (cases "8 - length s") (simp_all add: zeroFilled_def trimmed_def spaceByte_def IsSpace_def)
  qed
  moreover have "isASCII (zeroFilled s)" using a by (simp add: zeroFilled_def)
  ultimately show "TrimSpace (zeroFilled s) = zeroFilled s"
    by (intro TrimSpace_trimmed)
qed

lemma Atoi_2: "Atoi (TrimSpace ''2'') = 2"
proof -
  have "TrimSpace ''2'' = ''2''"
    by (rule TrimSpace_trimmed) (simp_all add: trimmed_def spaceByte_def IsSpace_def)
  then show ?thesis
    by (simp add: Atoi_def parseInt_def parseUint_def digitsVal_def isDigit_def digitVal_def)
qed

lemma Record_roundtrip:
  assumes wf: "wfRecord r" and nl: "length nl = 1 \<or> length nl = 2"
  shows "Record_Read r0 (Record_Write r @ nl) =
     (if IsValid r then None else Some ErrInvalidRecord, r\<lparr>r_recordType := 2\<rparr>)"
proof -
  define f1 where "f1 = fmtS False False 7 (Some 7) (r_BSBNumber r)"
  define f2 where "f2 = fmtS False False 9 (Some 9) (r_AccountNumber r)"
  define f3 where "f3 = fmtS True False 35 (Some 35) (r_AccountName r)"
  define f4 where "f4 = fmtS False False 8 (Some 8) (Format (r_TransactionDate r))"
  define f5 where "f5 = fmtS False False 16 (Some 16) (StringFixedBank2 (r_Amount r))"
  define f6 where "f6 = fmtS False False 2 (Some 2) (r_Indicator r)"
  define f7 where "f7 = fmtS False False 2 (Some 2) (r_TransactionCode r)"
  define f8 where "f8 = fmtS True False 40 (Some 40) (r_Description r)"
  define f9 where "f9 = fmtD True False 10 (Some 1) (r_ReferenceNumber r)"
  define f10 where "f10 = fmtS True False 10 (Some 10) (r_SecondaryReferenceNumber r)"
  define f11 where "f11 = fmtS True False 8 (Some 8) (r_ChequeNumber r)"
  note defs = f1_def f2_def f3_def f4_def f5_def f6_def f7_def f8_def f9_def f10_def f11_def
  have len: "length f1 = 7" "length f2 = 9" "length f3 = 35" "length f4 = 8"
    "length f5 = 16" "length f6 = 2" "length f7 = 2" "length f8 = 40" "length f9 = 10"
    "length f10 = 10" "length f11 = 8"
    using wf unfolding defs wfRecord_def
    by (simp_all add: text_field date_roundtrip amount_roundtrip int_field)
  have val: "TrimSpace f1 = r_BSBNumber r" "TrimSpace f2 = r_AccountNumber r"
    "TrimSpace f3 = r_AccountName r" "Parse (TrimSpace f4) = r_TransactionDate r"
    "NewFromString (TrimSpace f5) = r_Amount r" "TrimSpace f6 = r_Indicator r"
    "TrimSpace f7 = r_TransactionCode r" "TrimSpace f8 = r_Description r"
    "Atoi (TrimSpace f9) = r_ReferenceNumber r" "TrimSpace f10 = r_SecondaryReferenceNumber r"
    "TrimSpace f11 = r_ChequeNumber r"
    using wf unfolding defs wfRecord_def
    by (simp_all add: text_field date_roundtrip amount_roundtrip int_field)
  have line: "Record_Write r = CHR ''2'' # f1 @ f2 @ f3 @ f4 @ f5 @ f6 @ f7 @ f8 @ f9 @ f10 @ f11
      @ replicate 20 (CHR '' '')"
    unfolding Record_Write_def defs [symmetric]
    by (simp add: padBlank_exact len spaces_eq)
  have total: "length (Record_Write r @ nl) = 169 \<or> length (Record_Write r @ nl) = 170"
    using nl by (auto simp: line len)
  let ?r' = "r0\<lparr>r_recordType := 2,
        r_BSBNumber := r_BSBNumber r, r_AccountNumber := r_AccountNumber r,
        r_AccountName := r_AccountName r, r_TransactionDate := r_TransactionDate r,
        r_Amount := r_Amount r, r_Indicator := r_Indicator r,
        r_TransactionCode := r_TransactionCode r, r_Description := r_Description r,
        r_ReferenceNumber := r_ReferenceNumber r,
        r_SecondaryReferenceNumber := r_SecondaryReferenceNumber r,
        r_ChequeNumber := r_ChequeNumber r\<rparr>"
  have eq: "?r' = r\<lparr>r_recordType := 2\<rparr>"
    by (rule Record.equality) simp_all
  have "Record_Read r0 (Record_Write r @ nl) =
     (if IsValid ?r' then None else Some ErrInvalidRecord, ?r')"
    using total unfolding Record_Read_def
    by (auto simp: line slice_Cons slice_skip slice_take slice_take_Cons len val Atoi_2 Let_def)
  also have "IsValid ?r' = IsValid r" by (simp only: eq) (simp add: IsValid_def)
  finally show ?thesis by (simp only: eq)
qed

lemma BatchTrailer_roundtrip:
  assumes wf: "wfBatchTrailer t" and nl: "length nl = 1 \<or> length nl = 2"
  shows "BatchTrailer_Read t0 (BatchTrailer_Write t @ nl) = (None, t)"
proof -
  define c where "c = digitChar (nat (sint (bt_recordType t)))"
  define f1 where "f1 = fmtS False False 7 (Some 7) (bt_BSBNumber t)"
  define f2 where "f2 = fmtS False False 9 (Some 9) (bt_AccountNumber t)"
  define f3 where "f3 = fmtS True False 35 (Some 35) (bt_AccountName t)"
  define f4 where "f4 = fmtS False False 8 (Some 8) (Format (bt_TransactionDate t))"
  define f5 where "f5 = fmtS False False 16 (Some 16) (StringFixedBank2 (bt_Amount t))"
  define f6 where "f6 = fmtS False False 2 None (bt_Indicator t)"
  define f7 where "f7 = fmtS False False 2 None (bt_BatchType t)"
  define f8 where "f8 = fmtD False True 6 (Some 6) (bt_ReferenceNumber t)"
  define f9 where "f9 = fmtD False False 6 (Some 1) (bt_TotalDebitTransactions t)"
  define f10 where "f10 = fmtD False False 6 (Some 1) (bt_TotalCreditTransactions t)"
  define f11 where "f11 = fmtS False False 16 (Some 16) (StringFixedBank2 (bt_TotalDebitAmount t))"
  define f12 where "f12 = fmtS False False 16 (Some 16) (StringFixedBank2 (bt_TotalCreditAmount t))"
  note defs = f1_def f2_def f3_def f4_def f5_def f6_def f7_def f8_def f9_def f10_def f11_def
    f12_def
  have tag: "fmtD False False 0 None (bt_recordType t) = [c]"
    "Atoi (TrimSpace [c]) = bt_recordType t"
    using wf unfolding c_def wfBatchTrailer_def by (simp_all add: tag_field)
  have len: "length f1 = 7" "length f2 = 9" "length f3 = 35" "length f4 = 8"
    "length f5 = 16" "length f6 = 2" "length f7 = 2" "length f8 = 6" "length f9 = 6"
    "length f10 = 6" "length f11 = 16" "length f12 = 16"
    using wf unfolding defs wfBatchTrailer_def
    by (simp_all add: text_field text_field_noprec date_roundtrip amount_roundtrip int_field)
  have val: "TrimSpace f1 = bt_BSBNumber t" "TrimSpace f2 = bt_AccountNumber t"
    "TrimSpace f3 = bt_AccountName t" "Parse (TrimSpace f4) = bt_TransactionDate t"
    "NewFromString (TrimSpace f5) = bt_Amount t" "TrimSpace f6 = bt_Indicator t"
    "TrimSpace f7 = bt_BatchType t" "Atoi (TrimSpace f8) = bt_ReferenceNumber t"
    "Atoi (TrimSpace f9) = bt_TotalDebitTransactions t"
    "Atoi (TrimSpace f10) = bt_TotalCreditTransactions t"
    "NewFromString (TrimSpace f11) = bt_TotalDebitAmount t"
    "NewFromString (TrimSpace f12) = bt_TotalCreditAmount t"
    using wf unfolding defs wfBatchTrailer_def
    by (simp_all add: text_field text_field_noprec date_roundtrip amount_roundtrip int_field)
  have line: "BatchTrailer_Write t = c # f1 @ f2 @ f3 @ f4 @ f5 @ f6 @ f7 @ f8 @ f9 @ f10 @ f11
      @ f12 @ replicate 40 (CHR '' '')"
    unfolding BatchTrailer_Write_def defs [symmetric] tag
    by (simp add: padBlank_exact len spaces_eq)
  have total: "length (BatchTrailer_Write t @ nl) = 171 \<or> length (BatchTrailer_Write t @ nl) = 172"
    using nl by (auto simp: line len)
  have "BatchTrailer_Read t0 (BatchTrailer_Write t @ nl) =
     (None, t0\<lparr>bt_recordType := bt_recordType t,
        bt_BSBNumber := bt_BSBNumber t, bt_AccountNumber := bt_AccountNumber t,
        bt_AccountName := bt_AccountName t, bt_TransactionDate := bt_TransactionDate t,
        bt_Amount := bt_Amount t, bt_Indicator := bt_Indicator t,
        bt_BatchType := bt_BatchType t, bt_ReferenceNumber := bt_ReferenceNumber t,
        bt_TotalDebitTransactions := bt_TotalDebitTransactions t,
        bt_TotalCreditTransactions := bt_TotalCreditTransactions t,
        bt_TotalDebitAmount := bt_TotalDebitAmount t,
        bt_TotalCreditAmount := bt_TotalCreditAmount t\<rparr>)"
    using total unfolding BatchTrailer_Read_def
    by (auto simp: line slice_Cons slice_skip slice_take slice_take_Cons len val tag)
  also have "t0\<lparr>bt_recordType := bt_recordType t,
        bt_BSBNumber := bt_BSBNumber t, bt_AccountNumber := bt_AccountNumber t,
        bt_AccountName := bt_AccountName t, bt_TransactionDate := bt_TransactionDate t,
        bt_Amount := bt_Amount t, bt_Indicator := bt_Indicator t,
        bt_BatchType := bt_BatchType t, bt_ReferenceNumber := bt_ReferenceNumber t,
        bt_TotalDebitTransactions := bt_TotalDebitTransactions t,
        bt_TotalCreditTransactions := bt_TotalCreditTransactions t,
        bt_TotalDebitAmount := bt_TotalDebitAmount t,
        bt_TotalCreditAmount := bt_TotalCreditAmount t\<rparr> = t"
    by (rule BatchTrailer.equality) simp_all
  finally show ?thesis .
qed

lemma FileTrailer_roundtrip:
  assumes wf: "wfFileTrailer t" and nl: "length nl = 1 \<or> length nl = 2"
  shows "FileTrailer_Read t0 (FileTrailer_Write t @ nl) =
     (None, t\<lparr>ft_CustomerNumber := zeroFilled (ft_CustomerNumber t)\<rparr>)"
proof -
  define c where "c = digitChar (nat (sint (ft_recordType t)))"
  define f1 where "f1 = zeroFilled (ft_CustomerNumber t)"
  define f2 where "f2 = fmtS True False 35 (Some 35) (ft_CustomerName t)"
  define f3 where "f3 = fmtD True False 6 (Some 1) (ft_TotalDebitTransactions t)"
  define f4 where "f4 = fmtD True False 6 (Some 1) (ft_TotalCreditTransactions t)"
  define f5 where "f5 = fmtS True False 16 (Some 16) (StringFixedBank2 (ft_TotalDebitAmount t))"
  define f6 where "f6 = fmtS True False 16 (Some 16) (StringFixedBank2 (ft_TotalCreditAmount t))"
  note defs = f2_def f3_def f4_def f5_def f6_def
  have tag: "fmtD False False 0 None (ft_recordType t) = [c]"
    "Atoi (TrimSpace [c]) = ft_recordType t"
    using wf unfolding c_def wfFileTrailer_def by (simp_all add: tag_field)
  have cn: "fmtS False True 8 (Some 8) (ft_CustomerNumber t) = f1" "length f1 = 8"
    "TrimSpace f1 = f1"
    using wf unfolding f1_def wfFileTrailer_def by (simp_all add: zero_filled_field)
  have len: "length f2 = 35" "length f3 = 6" "length f4 = 6" "length f5 = 16" "length f6 = 16"
    using wf unfolding defs wfFileTrailer_def
    by (simp_all add: text_field amount_roundtrip int_field)
  have val: "TrimSpace f2 = ft_CustomerName t"
    "Atoi (TrimSpace f3) = ft_TotalDebitTransactions t"
    "Atoi (TrimSpace f4) = ft_TotalCreditTransactions t"
    "NewFromString (TrimSpace f5) = ft_TotalDebitAmount t"
    "NewFromString (TrimSpace f6) = ft_TotalCreditAmount t"
    using wf unfolding defs wfFileTrailer_def
    by (simp_all add: text_field amount_roundtrip int_field)
  have line: "FileTrailer_Write t = c # f1 @ f2 @ f3 @ f4 @ f5 @ f6 @ replicate 82 (CHR '' '')"
    unfolding FileTrailer_Write_def defs [symmetric] tag cn
    by (simp add: padBlank_exact len cn spaces_eq)
  have total: "length (FileTrailer_Write t @ nl) = 171 \<or> length (FileTrailer_Write t @ nl) = 172"
    using nl by (auto simp: line len cn)
  have "FileTrailer_Read t0 (FileTrailer_Write t @ nl) =
     (None, t0\<lparr>ft_recordType := ft_recordType t, ft_CustomerNumber := f1,
        ft_CustomerName := ft_CustomerName t,
        ft_TotalDebitTransactions := ft_TotalDebitTransactions t,
        ft_TotalCreditTransactions := ft_TotalCreditTransactions t,
        ft_TotalDebitAmount := ft_TotalDebitAmount t,
        ft_TotalCreditAmount := ft_TotalCreditAmount t\<rparr>)"
    using total unfolding FileTrailer_Read_def
    by (auto simp: line slice_Cons slice_skip slice_take slice_take_Cons len val tag cn)
  also have "t0\<lparr>ft_recordType := ft_recordType t, ft_CustomerNumber := f1,
        ft_CustomerName := ft_CustomerName t,
        ft_TotalDebitTransactions := ft_TotalDebitTransactions t,
        ft_TotalCreditTransactions := ft_TotalCreditTransactions t,
        ft_TotalDebitAmount := ft_TotalDebitAmount t,
        ft_TotalCreditAmount := ft_TotalCreditAmount t\<rparr>
      = t\<lparr>ft_CustomerNumber := zeroFilled (ft_CustomerNumber t)\<rparr>"
    by (rule FileTrailer.equality) (simp_all add: f1_def)
  finally show ?thesis .
qed

lemma slice_span:
  "i \<le> length a \<Longrightarrow> length a \<le> j \<Longrightarrow> slice (a @ l) i j = drop i a @ slice l 0 (j - length a)"
  by (simp add: slice_def)

lemma slice_within: "j \<le> length a \<Longrightarrow> slice (a @ l) i j = take (j - i) (drop i a)"
  by (simp add: slice_def)

lemma FileHeader_Read_Write:
  assumes wf: "wfFileHeader h" and nl: "length nl = 1 \<or> length nl = 2"
  shows "FileHeader_Read h0 (FileHeader_Write h @ nl) =
     (None, h\<lparr>
        fh_CustomerNumber := TrimSpace (zeroFilled (fh_CustomerNumber h)
          @ take 1 (fmtS True False 35 (Some 35) (fh_CustomerName h))),
        fh_CustomerName := TrimSpace (drop 1 (fmtS True False 35 (Some 35) (fh_CustomerName h))
          @ take 1 (fmtS True False 20 (Some 20) (fh_RemitterName h))),
        fh_RemitterName := TrimSpace (drop 1 (fmtS True False 20 (Some 20) (fh_RemitterName h)))\<rparr>)"
proof -
  define c where "c = digitChar (nat (sint (fh_recordType h)))"
  define f1 where "f1 = zeroFilled (fh_CustomerNumber h)"
  define f2 where "f2 = fmtS True False 35 (Some 35) (fh_CustomerName h)"
  define f3 where "f3 = fmtS True False 20 (Some 20) (fh_RemitterName h)"
  define f4 where "f4 = fmtS False False 8 (Some 8) (Format (fh_FileCreated h))"
  define f5 where "f5 = fmtS False False 8 (Some 8) (Format (fh_ProcessingDate h))"
  define f6 where "f6 = fmtS False False 20 (Some 20) (fh_Description h)"
  note defs = f2_def f3_def f4_def f5_def f6_def
  have tag: "fmtD False False 0 None (fh_recordType h) = [c]"
    "Atoi (TrimSpace [c]) = fh_recordType h"
    using wf unfolding c_def wfFileHeader_def by (simp_all add: tag_field)
  have cn: "fmtS False True 8 (Some 8) (fh_CustomerNumber h) = f1" "length f1 = 8"
    using wf unfolding f1_def wfFileHeader_def by (simp_all add: zero_filled_field)
  have len: "length f2 = 35" "length f3 = 20" "length f4 = 8" "length f5 = 8" "length f6 = 20"
    using wf unfolding defs wfFileHeader_def by (simp_all add: text_field date_roundtrip)
  have val: "Parse (TrimSpace f4) = fh_FileCreated h" "Parse (TrimSpace f5) = fh_ProcessingDate h"
    "TrimSpace f6 = fh_Description h"
    using wf unfolding defs wfFileHeader_def by (simp_all add: text_field date_roundtrip)
  have line: "FileHeader_Write h = c # f1 @ f2 @ f3 @ f4 @ f5 @ f6 @ replicate 70 (CHR '' '')"
    unfolding FileHeader_Write_def defs [symmetric] tag cn
    by (simp add: padBlank_exact len cn spaces_eq)
  have total: "length (FileHeader_Write h @ nl) = 171 \<or> length (FileHeader_Write h @ nl) = 172"
    using nl by (auto simp: line len cn)
  have cols: "slice (FileHeader_Write h @ nl) 0 (Suc 0) = [c]"
    "slice (FileHeader_Write h @ nl) (Suc 0) 10 = f1 @ take 1 f2"
    "slice (FileHeader_Write h @ nl) 10 45 = drop 1 f2 @ take 1 f3"
    "slice (FileHeader_Write h @ nl) 45 64 = drop 1 f3"
    "slice (FileHeader_Write h @ nl) 64 72 = f4"
    "slice (FileHeader_Write h @ nl) 72 80 = f5"
    "slice (FileHeader_Write h @ nl) 80 100 = f6"
    by (simp_all add: line slice_def len cn)
  have "FileHeader_Read h0 (FileHeader_Write h @ nl) =
     (None, h0\<lparr>fh_recordType := fh_recordType h,
        fh_CustomerNumber := TrimSpace (f1 @ take 1 f2),
        fh_CustomerName := TrimSpace (drop 1 f2 @ take 1 f3),
        fh_RemitterName := TrimSpace (drop 1 f3),
        fh_FileCreated := fh_FileCreated h, fh_ProcessingDate := fh_ProcessingDate h,
        fh_Description := fh_Description h\<rparr>)"
    using total unfolding FileHeader_Read_def by (auto simp: cols val tag)
  also have "h0\<lparr>fh_recordType := fh_recordType h,
        fh_CustomerNumber := TrimSpace (f1 @ take 1 f2),
        fh_CustomerName := TrimSpace (drop 1 f2 @ take 1 f3),
        fh_RemitterName := TrimSpace (drop 1 f3),
        fh_FileCreated := fh_FileCreated h, fh_ProcessingDate := fh_ProcessingDate h,
        fh_Description := fh_Description h\<rparr>
    = h\<lparr>fh_CustomerNumber := TrimSpace (f1 @ take 1 f2),
        fh_CustomerName := TrimSpace (drop 1 f2 @ take 1 f3),
        fh_RemitterName := TrimSpace (drop 1 f3)\<rparr>"
    by (rule FileHeader.equality) simp_all
  finally show ?thesis unfolding f1_def f2_def f3_def .
qed

lemma wfDate_demo [simp]: "wfDate demoDate" "wfDate zeroTime"
  by (simp_all add: wfDate_def demoDate_def zeroTime_def daysIn_def isLeap_def)

lemma wfAmountI: "d = of_int c / 100 \<Longrightarrow> 0 \<le> c \<Longrightarrow> c < 10 ^ 15 \<Longrightarrow> wfAmount d"
proof -
  assume d: "d = of_int c / 100" and c: "0 \<le> c" "c < 10 ^ 15"
  have "(of_int c :: rat) < of_int (10 ^ 15)" using c(2) by (simp only: of_int_less_iff)
  then have "d < 10 ^ 13" by (simp add: d)
  moreover have "0 \<le> d" using c(1) by (simp add: d)
  moreover have "d * 100 = of_int c" by (simp add: d)
  ultimately show ?thesis by (simp add: wfAmount_def)
qed

lemma wfAmount_demo:
  "wfAmount (r_Amount demoDebit)" "wfAmount (r_Amount demoCredit)"
  "wfAmount (r_Amount demoUnknown)" "wfAmount (bh_Amount (b_BatchHeader demoBatch))"
  "wfAmount (bt_Amount demoBatchTrailer)" "wfAmount (bt_TotalDebitAmount demoBatchTrailer)"
  "wfAmount (bt_TotalCreditAmount demoBatchTrailer)"
  "wfAmount (ft_TotalDebitAmount demoFileTrailer)"
  "wfAmount (ft_TotalCreditAmount demoFileTrailer)"
  "wfAmount (ft_TotalDebitAmount (demoFileTrailer\<lparr>ft_CustomerNumber := cn\<rparr>))"
  "wfAmount (ft_TotalCreditAmount (demoFileTrailer\<lparr>ft_CustomerNumber := cn\<rparr>))"
  by (rule wfAmountI [of _ 272178], simp_all add: demoDebit_def zeroRecord_def,
      rule wfAmountI [of _ 121000], simp_all add: demoCredit_def zeroRecord_def,
      rule wfAmountI [of _ 121000], simp_all add: demoUnknown_def demoCredit_def zeroRecord_def,
      rule wfAmountI [of _ 42632], simp_all add: demoBatch_def NewBatch_def zeroBatchHeader_def,
      rule wfAmountI [of _ 151178], simp_all add: demoBatchTrailer_def zeroBatchTrailer_def,
      rule wfAmountI [of _ 272178], simp_all,
      rule wfAmountI [of _ 121000], simp_all,
      rule wfAmountI [of _ 272178], simp_all add: demoFileTrailer_def zeroFileTrailer_def,
      rule wfAmountI [of _ 121000], simp_all,
      rule wfAmountI [of _ 272178], simp_all,
      rule wfAmountI [of _ 121000], simp_all)

lemma wfInt_demo [simp]:
  "wfInt w 0" "wfInt 10 245397" "wfInt 6 1" "wfInt (Suc 0) 7" "wfInt (Suc 0) 9"
  by (simp_all add: wfInt_def)

lemma wfRecord_demo [simp]: "wfRecord demoDebit" "wfRecord demoCredit" "wfRecord demoUnknown"
  unfolding wfRecord_def
  by (intro conjI wfAmount_demo;
      simp add: demoDebit_def demoCredit_def demoUnknown_def zeroRecord_def
        wfText_def trimmed_def spaceByte_def IsSpace_def Debit_def Credit_def)+

lemma wfBatchHeader_demo [simp]: "wfBatchHeader (b_BatchHeader demoBatch)"
  unfolding wfBatchHeader_def
  by (intro conjI wfAmount_demo;
      simp add: demoBatch_def NewBatch_def zeroBatchHeader_def
        wfText_def trimmed_def spaceByte_def IsSpace_def Credit_def)

lemma wfBatchTrailer_demo [simp]: "wfBatchTrailer demoBatchTrailer"
  unfolding wfBatchTrailer_def
  by (intro conjI wfAmount_demo;
      simp add: demoBatchTrailer_def zeroBatchTrailer_def
        wfText_def trimmed_def spaceByte_def IsSpace_def BatchTXN_def)

lemma wfFileTrailer_demo [simp]:
  "wfFileTrailer demoFileTrailer"
  "wfFileTrailer (demoFileTrailer\<lparr>ft_CustomerNumber := ''00123456''\<rparr>)"
  unfolding wfFileTrailer_def
  by (intro conjI wfAmount_demo;
      simp add: demoFileTrailer_def zeroFileTrailer_def wfText_def trimmed_def spaceByte_def IsSpace_def)+

lemma wfFileHeader_demo [simp]: "wfFileHeader demoFileHeader"
  by (simp add: wfFileHeader_def demoFileHeader_def zeroFileHeader_def
      wfText_def trimmed_def spaceByte_def IsSpace_def)

subsection \<open>A column that holds a rune of two bytes\<close>

lemma runes_accent: "runes [CHR 0xC3, CHR 0xA9] = [(233, [CHR 0xC3, CHR 0xA9])]"
  by (subst runes.simps, simp add: DecodeRuneInString_def Let_def, subst runes.simps, simp)

lemma fmtS_accent:
  "fmtS True False 35 (Some 35) [CHR 0xC3, CHR 0xA9]
     = [CHR 0xC3, CHR 0xA9] @ replicate 34 (CHR '' '')"
  by (simp add: fmtS_def fmtPad_def truncateString_def RuneCountInString_def runes_accent)

lemma Parse_short: "length s \<noteq> 8 \<Longrightarrow> Parse s = zeroTime"
  by (simp add: Parse_def)

lemma length_TrimSpace:
  "isASCII s \<Longrightarrow> length (TrimSpace s) \<le> length (dropWhile spaceByte s)"
  using length_dropWhile_le [of spaceByte "rev (dropWhile spaceByte s)"]
  by (simp add: TrimSpace_ascii)

lemma date_column:
  assumes "wfDate t"
  shows "isASCII (fmtS left False 8 (Some 8) (Format t))"
proof -
  have dm: "day t \<le> 31" using assms by (auto simp: wfDate_def daysIn_def split: if_splits)
  have "list_all isDigit (appendInt (year t) 4)" "list_all isDigit (appendInt (int (month t)) 2)"
    "list_all isDigit (appendInt (int (day t)) 2)"
    "length (appendInt (year t) 4) = 4" "length (appendInt (int (month t)) 2) = 2"
    "length (appendInt (int (day t)) 2) = 2"
    using assms dm by (simp_all add: appendInt_nonneg wfDate_def)
  then have "list_all isDigit (Format t)" "length (Format t) = 8" by (simp_all add: Format_def)
  then show ?thesis
    using isASCII_all_digits [of "Format t"] by (simp add: fmtS_ascii fmtPad_ascii)
qed

text \<open>
  The account name takes 36 bytes of the line instead of 35, every later column is one
  byte to the right of where \<^verbatim>\<open>Read\<close> looks for it, and the date column read back holds
  a blank and seven digits, which \<^verbatim>\<open>time.Parse\<close> refuses.
\<close>

lemma BatchHeader_accent:
  "bh_TransactionDate demoAccentHeader = demoDate"
  "bh_TransactionDate (snd (BatchHeader_Read zeroBatchHeader
      (BatchHeader_Write demoAccentHeader @ [CHR 0x0A]))) = zeroTime"
  "fst (BatchHeader_Read zeroBatchHeader (BatchHeader_Write demoAccentHeader @ [CHR 0x0A])) = None"
proof -
  let ?h = demoAccentHeader
  define f1 where "f1 = fmtS True False 7 (Some 7) (bh_BSBNumber ?h)"
  define f2 where "f2 = fmtS True False 9 (Some 9) (bh_AccountNumber ?h)"
  define f3 where "f3 = fmtS True False 35 (Some 35) (bh_AccountName ?h)"
  define f4 where "f4 = fmtS False False 8 (Some 8) (Format (bh_TransactionDate ?h))"
  define f5 where "f5 = fmtS False False 16 (Some 16) (StringFixedBank2 (bh_Amount ?h))"
  define f6 where "f6 = fmtS False False 2 (Some 2) (bh_Indicator ?h)"
  note defs = f1_def f2_def f3_def f4_def f5_def f6_def
  have wf: "wfText 7 (bh_BSBNumber ?h)" "wfText 9 (bh_AccountNumber ?h)"
    "wfDate (bh_TransactionDate ?h)" "wfAmount (bh_Amount ?h)" "wfText 2 (bh_Indicator ?h)"
    using wfBatchHeader_demo by (simp_all add: wfBatchHeader_def demoAccentHeader_def)
  have f3: "f3 = [CHR 0xC3, CHR 0xA9] @ replicate 34 (CHR '' '')"
    by (simp add: f3_def demoAccentHeader_def fmtS_accent)
  have len: "length f1 = 7" "length f2 = 9" "length f3 = 36" "length f4 = 8"
    "length f5 = 16" "length f6 = 2"
    using wf unfolding f1_def f2_def f4_def f5_def f6_def f3
    by (simp_all add: text_field date_roundtrip amount_roundtrip)
  have a4: "isASCII f4" unfolding f4_def using wf(3) by (rule date_column)
  have line: "BatchHeader_Write ?h =
      take 170 (CHR ''1'' # f1 @ f2 @ f3 @ f4 @ f5 @ f6 @ replicate 92 (CHR '' ''))"
    unfolding BatchHeader_Write_def defs [symmetric]
    by (simp add: padBlank_def len spaces_eq)
  have total: "length (BatchHeader_Write ?h @ [CHR 0x0A]) = 171"
    by (simp add: line len)
  have col: "slice (BatchHeader_Write ?h @ [CHR 0x0A]) 52 60 = CHR '' '' # take 7 f4"
    by (simp add: line slice_def len f3)
  have "length (TrimSpace (CHR '' '' # take 7 f4))
      \<le> length (dropWhile spaceByte (CHR '' '' # take 7 f4))"
    using a4 by (intro length_TrimSpace) (simp add: isASCII_take)
  also have "\<dots> \<le> 7"
    using length_dropWhile_le [of spaceByte "take 7 f4"] by simp
  finally have "Parse (TrimSpace (CHR '' '' # take 7 f4)) = zeroTime"
    by (intro Parse_short) simp
  then show "bh_TransactionDate (snd (BatchHeader_Read zeroBatchHeader
      (BatchHeader_Write demoAccentHeader @ [CHR 0x0A]))) = zeroTime"
    using total by (simp add: BatchHeader_Read_def col)
  show "fst (BatchHeader_Read zeroBatchHeader (BatchHeader_Write demoAccentHeader @ [CHR 0x0A])) = None"
    using total by (simp add: BatchHeader_Read_def)
  show "bh_TransactionDate demoAccentHeader = demoDate"
    by (simp add: demoAccentHeader_def demoBatch_def)
qed

section \<open>The claim about the codec\<close>

text \<open>
  Claim C1, as amended. For a Batch Header, a Transaction Record, a Batch Trailer and a
  File Trailer that are well formed (every text made of ASCII bytes, without white space
  at its ends and no longer than its column, every date a calendar date of the years 0 to
  9999 at midnight UTC, every amount a non-negative multiple of 0.01 below \<open>10 ^ 13\<close>,
  every integer non-negative and within its column, the record type of a trailer a single
  digit),
  \<^verbatim>\<open>Write\<close> followed by \<^verbatim>\<open>Read\<close> of the line and its \<^verbatim>\<open>\n\<close> or \<^verbatim>\<open>\r\n\<close> gives no
  length error and every field back, with these exceptions by design: the record type is
  not carried by a Batch Header line (the receiver keeps its own), a Transaction Record
  always comes back with record type 2, and the customer number of a File Trailer comes
  back filled with zeros on the left to 8 bytes (so exactly when it has 8 bytes). A
  record that fails \<open>IsValid\<close> is decoded all the same and returned with the
  invalid-record error. The File Header is left out of the statement.
\<close>

theorem codec_roundtrip:
  assumes "nl = [CHR 0x0A] \<or> nl = [CHR 0x0D, CHR 0x0A]"
    and "wfBatchHeader bh" and "wfRecord r" and "wfBatchTrailer bt" and "wfFileTrailer ft"
  shows "BatchHeader_Read bh0 (BatchHeader_Write bh @ nl)
        = (None, bh\<lparr>bh_recordType := bh_recordType bh0\<rparr>)
    \<and> Record_Read r0 (Record_Write r @ nl)
        = (if IsValid r then None else Some ErrInvalidRecord, r\<lparr>r_recordType := 2\<rparr>)
    \<and> BatchTrailer_Read bt0 (BatchTrailer_Write bt @ nl) = (None, bt)
    \<and> FileTrailer_Read ft0 (FileTrailer_Write ft @ nl)
        = (None, ft\<lparr>ft_CustomerNumber := zeroFilled (ft_CustomerNumber ft)\<rparr>)
    \<and> (length (ft_CustomerNumber ft) = 8 \<longrightarrow>
         FileTrailer_Read ft0 (FileTrailer_Write ft @ nl) = (None, ft))"
proof -
  have nl: "length nl = 1 \<or> length nl = 2" using assms(1) by auto
  have "length (ft_CustomerNumber ft) = 8 \<longrightarrow> zeroFilled (ft_CustomerNumber ft) = ft_CustomerNumber ft"
    by (simp add: zeroFilled_def)
  then show ?thesis
    by (auto simp: BatchHeader_roundtrip [OF assms(2) nl] Record_roundtrip [OF assms(3) nl]
        BatchTrailer_roundtrip [OF assms(4) nl] FileTrailer_roundtrip [OF assms(5) nl])
qed

theorem codec_roundtrip_witness:
  "wfBatchHeader (b_BatchHeader demoBatch) \<and> wfRecord demoDebit
   \<and> wfBatchTrailer demoBatchTrailer \<and> wfFileTrailer demoFileTrailer
   \<and> wfFileTrailer (demoFileTrailer\<lparr>ft_CustomerNumber := ''00123456''\<rparr>)
   \<and> IsValid demoDebit
   \<and> BatchHeader_Read zeroBatchHeader (BatchHeader_Write (b_BatchHeader demoBatch) @ [CHR 0x0A])
        = (None, (b_BatchHeader demoBatch)\<lparr>bh_recordType := 0\<rparr>)
   \<and> Record_Read zeroRecord (Record_Write demoDebit @ [CHR 0x0A])
        = (None, demoDebit\<lparr>r_recordType := 2\<rparr>)
   \<and> BatchTrailer_Read zeroBatchTrailer (BatchTrailer_Write demoBatchTrailer @ [CHR 0x0A])
        = (None, demoBatchTrailer)
   \<and> FileTrailer_Read zeroFileTrailer (FileTrailer_Write demoFileTrailer @ [CHR 0x0A])
        = (None, demoFileTrailer\<lparr>ft_CustomerNumber := ''00123456''\<rparr>)
   \<and> FileTrailer_Read zeroFileTrailer
        (FileTrailer_Write (demoFileTrailer\<lparr>ft_CustomerNumber := ''00123456''\<rparr>)
         @ [CHR 0x0D, CHR 0x0A])
        = (None, demoFileTrailer\<lparr>ft_CustomerNumber := ''00123456''\<rparr>)"
proof -
  have w8: "wfFileTrailer (demoFileTrailer\<lparr>ft_CustomerNumber := ''00123456''\<rparr>)"
    by simp
  have z: "zeroFilled (ft_CustomerNumber demoFileTrailer) = ''00123456''"
    by (simp add: zeroFilled_def demoFileTrailer_def eval_nat_numeral)
  have t0: "bh_recordType zeroBatchHeader = 0" by (simp add: zeroBatchHeader_def)
  have v: "IsValid demoDebit" by simp
  have l8: "length (ft_CustomerNumber (demoFileTrailer\<lparr>ft_CustomerNumber := ''00123456''\<rparr>)) = 8"
    by simp
  from codec_roundtrip [of "[CHR 0x0A]" "b_BatchHeader demoBatch" demoDebit demoBatchTrailer
      demoFileTrailer zeroBatchHeader zeroRecord zeroBatchTrailer zeroFileTrailer]
  have a: "BatchHeader_Read zeroBatchHeader (BatchHeader_Write (b_BatchHeader demoBatch) @ [CHR 0x0A])
        = (None, (b_BatchHeader demoBatch)\<lparr>bh_recordType := 0\<rparr>)
   \<and> Record_Read zeroRecord (Record_Write demoDebit @ [CHR 0x0A])
        = (None, demoDebit\<lparr>r_recordType := 2\<rparr>)
   \<and> BatchTrailer_Read zeroBatchTrailer (BatchTrailer_Write demoBatchTrailer @ [CHR 0x0A])
        = (None, demoBatchTrailer)
   \<and> FileTrailer_Read zeroFileTrailer (FileTrailer_Write demoFileTrailer @ [CHR 0x0A])
        = (None, demoFileTrailer\<lparr>ft_CustomerNumber := ''00123456''\<rparr>)"
    by (simp add: z t0)
  from codec_roundtrip [of "[CHR 0x0D, CHR 0x0A]" "b_BatchHeader demoBatch" demoDebit
      demoBatchTrailer "demoFileTrailer\<lparr>ft_CustomerNumber := ''00123456''\<rparr>"
      zeroBatchHeader zeroRecord zeroBatchTrailer zeroFileTrailer] w8 l8
  have b: "FileTrailer_Read zeroFileTrailer
        (FileTrailer_Write (demoFileTrailer\<lparr>ft_CustomerNumber := ''00123456''\<rparr>)
         @ [CHR 0x0D, CHR 0x0A])
        = (None, demoFileTrailer\<lparr>ft_CustomerNumber := ''00123456''\<rparr>)"
    by (simp add: zeroFilled_def)
  from a b w8 v show ?thesis by simp
qed

text \<open>
  The claim as it was stated fails on the File Trailer of the sample, whose customer
  number \<^verbatim>\<open>123456\<close> fits its column and comes back as \<^verbatim>\<open>00123456\<close>; and on a File
  Header with an 8-byte customer number, where \<^verbatim>\<open>Write\<close> lays the customer number, the
  customer name and the remitter name out in columns 1-9, 9-44 and 44-64 while
  \<^verbatim>\<open>Read\<close> (as the comments of the struct) takes them from columns 1-10, 10-45 and
  45-64: the first byte of the name ends up in the number, that of the remitter in the
  name. It fails as well on a text that fits its column but is not ASCII: the verbs of
  \<^verbatim>\<open>Write\<close> measure a column in runes and \<^verbatim>\<open>Read\<close> cuts the line in bytes, so the
  sample Batch Header with the account name \<^verbatim>\<open>C3 A9\<close>, one rune of two bytes, is read
  without error and comes back with the zero time for its date.
\<close>

theorem codec_roundtrip_counterexample:
  "ft_CustomerNumber demoFileTrailer = ''123456''
   \<and> ft_CustomerNumber (snd (FileTrailer_Read zeroFileTrailer
        (FileTrailer_Write demoFileTrailer @ [CHR 0x0A]))) = ''00123456''
   \<and> fh_CustomerNumber demoFileHeader = ''00123456''
   \<and> fh_CustomerName demoFileHeader = ''ABC PTY LIMITED''
   \<and> fh_RemitterName demoFileHeader = ''MACQUARIE BANK''
   \<and> fst (FileHeader_Read zeroFileHeader (FileHeader_Write demoFileHeader @ [CHR 0x0A])) = None
   \<and> fh_CustomerNumber (snd (FileHeader_Read zeroFileHeader
        (FileHeader_Write demoFileHeader @ [CHR 0x0A]))) = ''00123456A''
   \<and> fh_CustomerName (snd (FileHeader_Read zeroFileHeader
        (FileHeader_Write demoFileHeader @ [CHR 0x0A])))
        = ''BC PTY LIMITED                    M''
   \<and> fh_RemitterName (snd (FileHeader_Read zeroFileHeader
        (FileHeader_Write demoFileHeader @ [CHR 0x0A]))) = ''ACQUARIE BANK''
   \<and> bh_AccountName demoAccentHeader = [CHR 0xC3, CHR 0xA9]
   \<and> bh_TransactionDate demoAccentHeader = demoDate
   \<and> fst (BatchHeader_Read zeroBatchHeader
        (BatchHeader_Write demoAccentHeader @ [CHR 0x0A])) = None
   \<and> bh_TransactionDate (snd (BatchHeader_Read zeroBatchHeader
        (BatchHeader_Write demoAccentHeader @ [CHR 0x0A]))) = zeroTime
   \<and> zeroTime \<noteq> demoDate"
proof -
  have nl: "length [CHR 0x0A] = 1 \<or> length [CHR 0x0A] = 2" by simp
  have z: "zeroFilled ''123456'' = ''00123456''"
    "ft_CustomerNumber demoFileTrailer = ''123456''"
    by (simp_all add: zeroFilled_def demoFileTrailer_def eval_nat_numeral)
  have h: "fh_CustomerNumber demoFileHeader = ''00123456''"
    "fh_CustomerName demoFileHeader = ''ABC PTY LIMITED''"
    "fh_RemitterName demoFileHeader = ''MACQUARIE BANK''"
    by (simp_all add: demoFileHeader_def)
  have c0: "fmtS True False 35 (Some 35) ''ABC PTY LIMITED''
      = ''ABC PTY LIMITED'' @ replicate 20 (CHR '' '')"
    "fmtS True False 20 (Some 20) ''MACQUARIE BANK'' = ''MACQUARIE BANK'' @ replicate 6 (CHR '' '')"
    by (simp_all add: fmtS_ascii fmtPad_ascii)
  have "TrimSpace ''00123456A'' = ''00123456A''"
    by (rule TrimSpace_trimmed) (simp_all add: trimmed_def spaceByte_def IsSpace_def)
  then have c1: "TrimSpace (zeroFilled ''00123456''
        @ take (Suc 0) (fmtS True False 35 (Some 35) ''ABC PTY LIMITED'')) = ''00123456A''"
    by (simp add: c0 zeroFilled_def)
  have "TrimSpace (''BC PTY LIMITED'' @ replicate 20 (CHR '' '') @ ''M'')
      = ''BC PTY LIMITED'' @ replicate 20 (CHR '' '') @ ''M''"
    by (rule TrimSpace_trimmed) (simp_all add: trimmed_def spaceByte_def IsSpace_def)
  then have c2: "TrimSpace (drop (Suc 0) (fmtS True False 35 (Some 35) ''ABC PTY LIMITED'')
        @ take (Suc 0) (fmtS True False 20 (Some 20) ''MACQUARIE BANK''))
      = ''BC PTY LIMITED                    M''"
    by (simp only: c0) (simp add: eval_nat_numeral)
  have "TrimSpace ''ACQUARIE BANK'' = ''ACQUARIE BANK''"
    by (rule TrimSpace_trimmed) (simp_all add: trimmed_def spaceByte_def IsSpace_def)
  then have c3: "TrimSpace (drop (Suc 0) (fmtS True False 20 (Some 20) ''MACQUARIE BANK''))
      = ''ACQUARIE BANK''"
    using TrimSpace_blanks_right [of "''ACQUARIE BANK''" 6] by (simp add: c0)
  have e: "bh_AccountName demoAccentHeader = [CHR 0xC3, CHR 0xA9]"
    "zeroTime \<noteq> demoDate"
    by (simp_all add: demoAccentHeader_def zeroTime_def demoDate_def)
  show ?thesis
    by (simp add: FileTrailer_roundtrip [OF wfFileTrailer_demo(1) nl]
        FileHeader_Read_Write [OF wfFileHeader_demo nl] z h c1 c2 c3 BatchHeader_accent e)
qed

section \<open>The claim about the length of a line\<close>

text \<open>
  Claim C8. A line of 171 or 172 bytes (the width 170 and \<^verbatim>\<open>\n\<close> or \<^verbatim>\<open>\r\n\<close>) is taken
  by the \<^verbatim>\<open>Read\<close> of the File Header, the Batch Header, the Batch Trailer and the File
  Trailer without error, and a line of any other length fails with the error of the
  kind. For the Transaction Record (width 168) the lengths are 169 and 170: any other
  length fails with the bad-record error, and a line of these lengths never does (its
  only error is the invalid-record one).
\<close>

theorem Read_length_contract:
  "(length l \<noteq> 171 \<and> length l \<noteq> 172 \<longrightarrow>
       fst (FileHeader_Read fh l) = Some ErrBadFileHeader
     \<and> fst (BatchHeader_Read bh l) = Some ErrBadBatchHeader
     \<and> fst (BatchTrailer_Read bt l) = Some ErrBadBatchTrailer
     \<and> fst (FileTrailer_Read ft l) = Some ErrBadFileTrailer)
   \<and> (length l = 171 \<or> length l = 172 \<longrightarrow>
       fst (FileHeader_Read fh l) = None
     \<and> fst (BatchHeader_Read bh l) = None
     \<and> fst (BatchTrailer_Read bt l) = None
     \<and> fst (FileTrailer_Read ft l) = None)
   \<and> (length l \<noteq> 169 \<and> length l \<noteq> 170 \<longrightarrow> fst (Record_Read r l) = Some ErrBadRecord)
   \<and> (length l = 169 \<or> length l = 170 \<longrightarrow>
       fst (Record_Read r l) \<noteq> Some ErrBadRecord
     \<and> (fst (Record_Read r l) = None \<or> fst (Record_Read r l) = Some ErrInvalidRecord))"
  by (auto simp: FileHeader_Read_def BatchHeader_Read_def BatchTrailer_Read_def
      FileTrailer_Read_def Record_Read_def Let_def)

theorem Read_length_contract_witness:
  "length (replicate 171 (CHR '' '')) = 171
   \<and> fst (FileHeader_Read zeroFileHeader (replicate 171 (CHR '' ''))) = None
   \<and> fst (BatchHeader_Read zeroBatchHeader (replicate 171 (CHR '' ''))) = None
   \<and> fst (BatchTrailer_Read zeroBatchTrailer (replicate 171 (CHR '' ''))) = None
   \<and> fst (FileTrailer_Read zeroFileTrailer (replicate 171 (CHR '' ''))) = None
   \<and> fst (Record_Read zeroRecord (replicate 171 (CHR '' ''))) = Some ErrBadRecord
   \<and> length (replicate 170 (CHR '' '')) = 170
   \<and> fst (FileHeader_Read zeroFileHeader (replicate 170 (CHR '' ''))) = Some ErrBadFileHeader
   \<and> fst (BatchHeader_Read zeroBatchHeader (replicate 170 (CHR '' ''))) = Some ErrBadBatchHeader
   \<and> fst (BatchTrailer_Read zeroBatchTrailer (replicate 170 (CHR '' ''))) = Some ErrBadBatchTrailer
   \<and> fst (FileTrailer_Read zeroFileTrailer (replicate 170 (CHR '' ''))) = Some ErrBadFileTrailer
   \<and> fst (Record_Read zeroRecord (replicate 170 (CHR '' ''))) \<noteq> Some ErrBadRecord"
  using Read_length_contract [of "replicate 171 (CHR '' '')" zeroFileHeader zeroBatchHeader
      zeroBatchTrailer zeroFileTrailer zeroRecord]
    Read_length_contract [of "replicate 170 (CHR '' '')" zeroFileHeader zeroBatchHeader
      zeroBatchTrailer zeroFileTrailer zeroRecord]
  by simp

declare splitLines.simps [simp del]

section \<open>Facts about the reader\<close>

lemma ReadString_line:
  "CHR 0x0A \<notin> set body \<Longrightarrow> ReadString (body @ CHR 0x0A # rest) = (body @ [CHR 0x0A], rest)"
proof -
  assume n: "CHR 0x0A \<notin> set body"
  then have "takeWhile (\<lambda>c. c \<noteq> CHR 0x0A) (body @ CHR 0x0A # rest) = body"
    by (induction body) auto
  then show ?thesis by (simp add: ReadString_def Let_def)
qed

lemma ReadString_firstByte:
  assumes "ReadString (b # cs) = (line, rest)"
  shows "firstByte line = Some b"
  using assms by (auto simp: ReadString_def Let_def firstByte_def split: if_splits list.splits)

lemma step_unfold:
  assumes "rd_r r = b # cs" and "ReadString (rd_r r) = (line, rest)"
  shows "readRecordOrHeaderOrTrailer r =
     (let r1 = r\<lparr>rd_r := rest\<rparr>
      in if b = CHR ''0'' then
           (case FileHeader_Read (rd_FileHeader r1) line of
              (err, h) \<Rightarrow> Inr (err, r1\<lparr>rd_FileHeader := h\<rparr>))
         else if b = CHR ''1'' then
           (case BatchHeader_Read (b_BatchHeader zeroBatch) line of
              (err, h) \<Rightarrow>
                if err = None
                then Inr (err, r1\<lparr>rd_Batch := rd_Batch r1 @ [zeroBatch\<lparr>b_BatchHeader := h\<rparr>]\<rparr>)
                else Inr (err, r1))
         else if b = CHR ''2'' then
           (case Record_Read zeroRecord line of
              (err, record) \<Rightarrow>
                if err = None then
                  (if IsValid record then
                     (if rd_Batch r1 = [] then Inl IndexOutOfRange_Records
                      else
                        let n = length (rd_Batch r1) - 1;
                            cur = rd_Batch r1 ! n
                        in Inr (err, r1\<lparr>rd_Batch := (rd_Batch r1)
                             [n := cur\<lparr>b_Records := b_Records cur @ [record]\<rparr>]\<rparr>))
                   else Inr (Some ErrInvalidRecord, r1))
                else Inr (err, r1))
         else if b = CHR ''7'' then
           (case BatchTrailer_Read (b_BatchTrailer zeroBatch) line of
              (err, t) \<Rightarrow>
                if err = None then
                  (if rd_Batch r1 = [] then Inl IndexOutOfRange_Trailer
                   else
                     let n = length (rd_Batch r1) - 1
                     in Inr (err, r1\<lparr>rd_Batch := (rd_Batch r1)
                          [n := (rd_Batch r1 ! n)\<lparr>b_BatchTrailer := t\<rparr>]\<rparr>))
                else Inr (err, r1))
         else if b = CHR ''9'' then
           (case FileTrailer_Read (rd_FileTrailer r1) line of
              (err, t) \<Rightarrow> Inr (err, r1\<lparr>rd_FileTrailer := t\<rparr>))
         else Inr (Some ErrUnexpectedRecordType, r1))"
  unfolding readRecordOrHeaderOrTrailer_def
  by (simp only: assms(1) assms(2) [unfolded assms(1)] list.case prod.case)

lemma step_panic_records:
  assumes "readRecordOrHeaderOrTrailer r = Inl IndexOutOfRange_Records"
  shows "rd_Batch r = [] \<and> (\<exists>cs. rd_r r = CHR ''2'' # cs)"
proof (cases "rd_r r")
  case Nil
  with assms show ?thesis by (simp add: readRecordOrHeaderOrTrailer_def)
next
  case (Cons b cs)
  obtain line rest where rs: "ReadString (rd_r r) = (line, rest)"
    by (cases "ReadString (rd_r r)")
  from assms have "b = CHR ''2'' \<and> rd_Batch r = []"
    unfolding step_unfold [OF Cons rs]
    by (simp add: Let_def split: if_splits prod.splits)
  with Cons show ?thesis by simp
qed

lemma step_ok:
  assumes "readRecordOrHeaderOrTrailer r = Inr (None, r')"
  shows "\<exists>b cs line. rd_r r = b # cs \<and> ReadString (rd_r r) = (line, rd_r r')
     \<and> (if b = CHR ''1'' then rd_Batch r' \<noteq> []
         else if b = CHR ''2'' then rd_Batch r \<noteq> [] \<and> rd_Batch r' \<noteq> []
         else (rd_Batch r' = [] \<longleftrightarrow> rd_Batch r = []))"
proof (cases "rd_r r")
  case Nil
  with assms show ?thesis by (simp add: readRecordOrHeaderOrTrailer_def)
next
  case (Cons b cs)
  obtain line rest where rs: "ReadString (rd_r r) = (line, rest)"
    by (cases "ReadString (rd_r r)")
  from assms have "rd_r r' = rest
     \<and> (if b = CHR ''1'' then rd_Batch r' \<noteq> []
         else if b = CHR ''2'' then rd_Batch r \<noteq> [] \<and> rd_Batch r' \<noteq> []
         else (rd_Batch r' = [] \<longleftrightarrow> rd_Batch r = []))"
    unfolding step_unfold [OF Cons rs]
    by (simp add: Let_def split: if_splits prod.splits) auto
  with Cons rs show ?thesis by simp
qed

lemma scanOrder_mono: "scanOrder seen ls \<Longrightarrow> scanOrder True ls"
  by (induction ls arbitrary: seen) (auto split: if_splits)

lemma ReadAll_scanOrder:
  "scanOrder (rd_Batch r \<noteq> []) (splitLines (rd_r r)) \<Longrightarrow> ReadAll r \<noteq> Inl IndexOutOfRange_Records"
proof (induction r rule: ReadAll.induct)
  case (1 r)
  show ?case
  proof (cases "readRecordOrHeaderOrTrailer r")
    case (Inl p)
    have "p \<noteq> IndexOutOfRange_Records"
    proof
      assume "p = IndexOutOfRange_Records"
      with Inl step_panic_records [of r] obtain cs where
        e: "rd_Batch r = []" and i: "rd_r r = CHR ''2'' # cs" by auto
      obtain line rest where rs: "ReadString (rd_r r) = (line, rest)"
        by (cases "ReadString (rd_r r)")
      then have "firstByte line = Some (CHR ''2'')"
        using ReadString_firstByte [of "CHR ''2''" cs line rest] i by simp
      then have "\<not> scanOrder False (splitLines (rd_r r))"
        using i rs by (subst splitLines.simps) simp
      with "1.prems" e show False by simp
    qed
    with Inl show ?thesis by (subst ReadAll.simps) simp
  next
    case (Inr res)
    obtain err r' where res: "res = (err, r')" by (cases res)
    show ?thesis
    proof (cases err)
      case (Some e)
      with Inr res show ?thesis by (subst ReadAll.simps) simp
    next
      case None
      from step_ok [of r r'] Inr res None obtain b cs line where
        i: "rd_r r = b # cs" and rs: "ReadString (rd_r r) = (line, rd_r r')"
        and bt: "if b = CHR ''1'' then rd_Batch r' \<noteq> []
         else if b = CHR ''2'' then rd_Batch r \<noteq> [] \<and> rd_Batch r' \<noteq> []
         else (rd_Batch r' = [] \<longleftrightarrow> rd_Batch r = [])" by auto
      have fb: "firstByte line = Some b"
        using ReadString_firstByte [of b cs line "rd_r r'"] i rs by simp
      have sl: "splitLines (rd_r r) = line # splitLines (rd_r r')"
        using i rs by (subst splitLines.simps) simp
      have "scanOrder (rd_Batch r' \<noteq> []) (splitLines (rd_r r'))"
        using "1.prems" bt unfolding sl
        by (auto simp: fb split: if_splits dest: scanOrder_mono)
      from "1.IH" [OF Inr res [symmetric] _ _ this] None
      have "ReadAll r' \<noteq> Inl IndexOutOfRange_Records" by simp
      with Inr res None show ?thesis by (subst ReadAll.simps) simp
    qed
  qed
qed

lemma headersFirst_scanOrder:
  assumes "\<forall>i < length ls. firstByte (ls ! i) = Some (CHR ''2'') \<longrightarrow>
        seen \<or> (\<exists>j < i. firstByte (ls ! j) = Some (CHR ''1''))"
  shows "scanOrder seen ls"
  using assms
proof (induction ls arbitrary: seen)
  case Nil
  show ?case by simp
next
  case (Cons l ls)
  have step: "\<And>i. i < length ls \<Longrightarrow> firstByte (ls ! i) = Some (CHR ''2'') \<Longrightarrow>
      seen \<or> firstByte l = Some (CHR ''1'') \<or> (\<exists>j < i. firstByte (ls ! j) = Some (CHR ''1''))"
  proof -
    fix i assume i: "i < length ls" and t: "firstByte (ls ! i) = Some (CHR ''2'')"
    from Cons.prems [rule_format, of "Suc i"] i t
    have "seen \<or> (\<exists>j < Suc i. firstByte ((l # ls) ! j) = Some (CHR ''1''))" by simp
    then show "seen \<or> firstByte l = Some (CHR ''1'') \<or> (\<exists>j < i. firstByte (ls ! j) = Some (CHR ''1''))"
    proof (elim disjE exE conjE)
      fix j assume "j < Suc i" and "firstByte ((l # ls) ! j) = Some (CHR ''1'')"
      then show ?thesis by (cases j) auto
    qed simp
  qed
  show ?case
  proof (cases "firstByte l = Some (CHR ''1'')")
    case True
    have "scanOrder True ls" by (rule Cons.IH) simp
    with True show ?thesis by simp
  next
    case False
    have rest: "scanOrder seen ls"
      by (rule Cons.IH) (use step False in blast)
    show ?thesis
    proof (cases "firstByte l = Some (CHR ''2'')")
      case True
      from Cons.prems [rule_format, of 0] True have seen by simp
      with True False rest show ?thesis by simp
    next
      case n2: False
      with False rest show ?thesis by simp
    qed
  qed
qed

lemma ReadAll_headersFirst:
  "headersFirst (splitLines inp) \<Longrightarrow> ReadAll (NewReader inp) \<noteq> Inl IndexOutOfRange_Records"
proof -
  assume "headersFirst (splitLines inp)"
  then have "scanOrder False (splitLines inp)"
    by (intro headersFirst_scanOrder) (simp add: headersFirst_def)
  then show ?thesis
    by (intro ReadAll_scanOrder) (simp add: NewReader_def)
qed

lemma oneLine_simps [simp]:
  "oneLine []" "oneLine (c # s) \<longleftrightarrow> c \<noteq> CHR 0x0A \<and> oneLine s"
  "oneLine (s @ t) \<longleftrightarrow> oneLine s \<and> oneLine t"
  "c \<noteq> CHR 0x0A \<Longrightarrow> oneLine (replicate n c)"
  by (auto simp: oneLine_def)

lemma oneLine_take: "oneLine s \<Longrightarrow> oneLine (take n s)"
  and oneLine_drop: "oneLine s \<Longrightarrow> oneLine (drop n s)"
  by (auto simp: oneLine_def dest: in_set_takeD in_set_dropD)

lemma oneLine_digits [simp]: "oneLine (digits n)"
  using digits_all [of n] by (auto simp: oneLine_def list_all_iff isDigit_def)

lemma oneLine_fmtPad: "oneLine s \<Longrightarrow> oneLine (fmtPad left zeros wid s)"
  by (simp add: fmtPad_def)

lemma oneLine_truncateString: "oneLine s \<Longrightarrow> oneLine (truncateString n s)"
proof -
  assume o: "oneLine s"
  obtain t where "s = truncateString n s @ t" using truncateString_prefix by blast
  then have "oneLine (truncateString n s @ t)" using o by simp
  then show ?thesis by simp
qed

lemma oneLine_fmtS: "oneLine s \<Longrightarrow> oneLine (fmtS left zeros wid prec s)"
  by (cases prec) (simp_all add: fmtS_def oneLine_fmtPad oneLine_truncateString)

lemma oneLine_fmtD [simp]: "oneLine (fmtD left zeros wid prec x)"
  by (simp add: fmtD_def Let_def oneLine_fmtPad)

lemma oneLine_StringFixedBank2 [simp]: "oneLine (StringFixedBank2 d)"
  by (simp add: StringFixedBank2_def Let_def oneLine_take oneLine_drop)

lemma oneLine_Format [simp]: "oneLine (Format t)"
  by (simp add: Format_def appendInt_def Let_def)

lemma oneLine_padBlank: "oneLine s \<Longrightarrow> oneLine (padBlank s n)"
  by (simp add: padBlank_def oneLine_take)

lemma oneLine_spaces [simp]: "oneLine (spaces n)"
  by (simp add: spaces_eq)

lemma oneLine_Record_Write:
  assumes "oneLine (r_BSBNumber r)" "oneLine (r_AccountNumber r)" "oneLine (r_AccountName r)"
    "oneLine (r_Indicator r)" "oneLine (r_TransactionCode r)" "oneLine (r_Description r)"
    "oneLine (r_SecondaryReferenceNumber r)" "oneLine (r_ChequeNumber r)"
  shows "oneLine (Record_Write r)"
  unfolding Record_Write_def using assms
  by (intro oneLine_padBlank) (simp add: oneLine_fmtS del: fmtS_verbatim)

lemma oneLine_BatchHeader_Write:
  assumes "oneLine (bh_BSBNumber h)" "oneLine (bh_AccountNumber h)" "oneLine (bh_AccountName h)"
    "oneLine (bh_Indicator h)"
  shows "oneLine (BatchHeader_Write h)"
  unfolding BatchHeader_Write_def using assms
  by (intro oneLine_padBlank) (simp add: oneLine_fmtS del: fmtS_verbatim)

lemma Record_Write_starts: "\<exists>t. Record_Write r = CHR ''2'' # t"
  by (simp add: Record_Write_def padBlank_def take_Cons')

lemma BatchHeader_Write_starts: "\<exists>t. BatchHeader_Write h = CHR ''1'' # t"
  by (simp add: BatchHeader_Write_def padBlank_def take_Cons')

lemma step_record_line:
  assumes inp: "rd_r r = Record_Write x @ CHR 0x0A # rest"
    and wf: "wfRecord x" and ol: "oneLine (Record_Write x)"
  shows "readRecordOrHeaderOrTrailer r =
     (if IsValid x then
        (if rd_Batch r = [] then Inl IndexOutOfRange_Records
         else Inr (None, r\<lparr>rd_r := rest, rd_Batch := (rd_Batch r)
           [length (rd_Batch r) - 1 := (rd_Batch r ! (length (rd_Batch r) - 1))
              \<lparr>b_Records := b_Records (rd_Batch r ! (length (rd_Batch r) - 1))
                 @ [x\<lparr>r_recordType := 2\<rparr>]\<rparr>]\<rparr>))
      else Inr (Some ErrInvalidRecord, r\<lparr>rd_r := rest\<rparr>))"
proof -
  obtain t where st: "Record_Write x = CHR ''2'' # t" using Record_Write_starts by blast
  have i: "rd_r r = CHR ''2'' # (t @ CHR 0x0A # rest)" by (simp add: inp st)
  have rs: "ReadString (rd_r r) = (Record_Write x @ [CHR 0x0A], rest)"
    unfolding inp using ol by (intro ReadString_line) (simp add: oneLine_def)
  have nl: "length [CHR 0x0A] = 1 \<or> length [CHR 0x0A] = 2" by simp
  have valid': "IsValid (x\<lparr>r_recordType := 2\<rparr>) = IsValid x" by (simp add: IsValid_def)
  show ?thesis
    unfolding step_unfold [OF i rs]
    by (simp add: Record_roundtrip [OF wf nl] Let_def valid')
qed

lemma step_batch_header_line:
  assumes inp: "rd_r r = BatchHeader_Write h @ CHR 0x0A # rest"
    and wf: "wfBatchHeader h" and ol: "oneLine (BatchHeader_Write h)"
  shows "readRecordOrHeaderOrTrailer r =
     Inr (None, r\<lparr>rd_r := rest,
       rd_Batch := rd_Batch r @ [zeroBatch\<lparr>b_BatchHeader := h\<lparr>bh_recordType := 0\<rparr>\<rparr>]\<rparr>)"
proof -
  obtain t where st: "BatchHeader_Write h = CHR ''1'' # t" using BatchHeader_Write_starts by blast
  have i: "rd_r r = CHR ''1'' # (t @ CHR 0x0A # rest)" by (simp add: inp st)
  have rs: "ReadString (rd_r r) = (BatchHeader_Write h @ [CHR 0x0A], rest)"
    unfolding inp using ol by (intro ReadString_line) (simp add: oneLine_def)
  have nl: "length [CHR 0x0A] = 1 \<or> length [CHR 0x0A] = 2" by simp
  show ?thesis
    unfolding step_unfold [OF i rs]
    by (simp add: BatchHeader_roundtrip [OF wf nl] Let_def zeroBatch_def zeroBatchHeader_def)
qed

lemma oneLine_demo [simp]:
  "oneLine (Record_Write demoDebit)" "oneLine (Record_Write demoCredit)"
  "oneLine (Record_Write demoUnknown)" "oneLine (BatchHeader_Write (b_BatchHeader demoBatch))"
  by (rule oneLine_Record_Write oneLine_BatchHeader_Write;
      simp add: demoDebit_def demoCredit_def demoUnknown_def demoBatch_def NewBatch_def
        zeroRecord_def zeroBatchHeader_def Debit_def Credit_def)+

lemma firstByte_Cons [simp]: "firstByte (c # s) = Some c"
  by (simp add: firstByte_def)

lemma ReadAll_step_error:
  assumes "readRecordOrHeaderOrTrailer r = Inr (Some e, r')" and "e \<noteq> EOF"
  shows "ReadAll r = Inr (rd_Batch r', Some e, r')"
  using assms by (subst ReadAll.simps) simp

lemma ReadAll_step_ok:
  assumes "readRecordOrHeaderOrTrailer r = Inr (None, r')"
  shows "ReadAll r = ReadAll r'"
  using assms by (subst ReadAll.simps) simp

lemma ReadAll_step_panic:
  assumes "readRecordOrHeaderOrTrailer r = Inl p"
  shows "ReadAll r = Inl p"
  using assms by (subst ReadAll.simps) simp

section \<open>The claims about the reader\<close>

text \<open>
  Claim C4, as amended. When the next line of the input starts with \<^verbatim>\<open>2\<close> and decodes
  to a record that fails the validity predicate, \<^verbatim>\<open>ReadAll\<close> stops at that line: it
  returns the invalid-record error and the batches read so far, the record is in none of
  them, and the input after the line is left unread in the reader.
\<close>

theorem ReadAll_invalid_record:
  assumes "firstByte (rd_r r) = Some (CHR ''2'')"
    and "fst (Record_Read zeroRecord (fst (ReadString (rd_r r)))) = Some ErrInvalidRecord"
  shows "ReadAll r =
     Inr (rd_Batch r, Some ErrInvalidRecord, r\<lparr>rd_r := snd (ReadString (rd_r r))\<rparr>)"
proof -
  from assms(1) obtain cs where i: "rd_r r = CHR ''2'' # cs"
    by (cases "rd_r r") (simp_all add: firstByte_def)
  obtain line rest where rs: "ReadString (rd_r r) = (line, rest)"
    by (cases "ReadString (rd_r r)")
  obtain err x where rr: "Record_Read zeroRecord line = (err, x)"
    by (cases "Record_Read zeroRecord line")
  with assms(2) rs have err: "err = Some ErrInvalidRecord" by simp
  have "readRecordOrHeaderOrTrailer r = Inr (Some ErrInvalidRecord, r\<lparr>rd_r := rest\<rparr>)"
    unfolding step_unfold [OF i rs] by (simp add: rr err Let_def)
  from ReadAll_step_error [OF this] rs show ?thesis by simp
qed

theorem ReadAll_invalid_record_witness:
  "firstByte (rd_r (NewReader (Record_Write demoUnknown @ CHR 0x0A # demoCreditLine)))
     = Some (CHR ''2'')
   \<and> fst (Record_Read zeroRecord (fst (ReadString
        (rd_r (NewReader (Record_Write demoUnknown @ CHR 0x0A # demoCreditLine))))))
     = Some ErrInvalidRecord
   \<and> ReadAll (NewReader (Record_Write demoUnknown @ CHR 0x0A # demoCreditLine))
     = Inr ([], Some ErrInvalidRecord, NewReader demoCreditLine)"
proof -
  let ?r = "NewReader (Record_Write demoUnknown @ CHR 0x0A # demoCreditLine)"
  obtain t where st: "Record_Write demoUnknown = CHR ''2'' # t"
    using Record_Write_starts by blast
  have i: "rd_r ?r = Record_Write demoUnknown @ CHR 0x0A # demoCreditLine"
    by (simp add: NewReader_def)
  have h1: "firstByte (rd_r ?r) = Some (CHR ''2'')" by (simp add: NewReader_def st)
  have rs: "ReadString (rd_r ?r) = (Record_Write demoUnknown @ [CHR 0x0A], demoCreditLine)"
    unfolding i using oneLine_demo(3) by (intro ReadString_line) (simp add: oneLine_def)
  have nl: "length [CHR 0x0A] = 1 \<or> length [CHR 0x0A] = 2" by simp
  have h2: "fst (Record_Read zeroRecord (fst (ReadString (rd_r ?r)))) = Some ErrInvalidRecord"
    by (simp add: rs Record_roundtrip [OF wfRecord_demo(3) nl])
  from ReadAll_invalid_record [OF h1 h2]
  have "ReadAll ?r = Inr ([], Some ErrInvalidRecord, NewReader demoCreditLine)"
    by (simp add: rs) (simp add: NewReader_def)
  with h1 h2 show ?thesis by simp
qed

text \<open>
  The claim as it was stated fails on the input made of the sample batch header line, the
  line of the record with the indicator \<^verbatim>\<open>XX\<close> and the line of the valid credit record:
  \<^verbatim>\<open>ReadAll\<close> returns the error with one batch that holds no record, and the line of the
  valid record is still in the input.
\<close>

theorem ReadAll_invalid_record_counterexample:
  "demoBadInput = BatchHeader_Write (b_BatchHeader demoBatch) @ [CHR 0x0A]
     @ Record_Write demoUnknown @ [CHR 0x0A] @ Record_Write demoCredit @ [CHR 0x0A]
   \<and> \<not> IsValid demoUnknown \<and> IsValid demoCredit
   \<and> ReadAll (NewReader demoBadInput)
     = Inr ([demoReadBatch], Some ErrInvalidRecord,
            (NewReader (Record_Write demoCredit @ [CHR 0x0A]))\<lparr>rd_Batch := [demoReadBatch]\<rparr>)
   \<and> b_Records demoReadBatch = []"
proof -
  let ?r0 = "NewReader demoBadInput"
  let ?r1 = "?r0\<lparr>rd_r := Record_Write demoUnknown @ CHR 0x0A # demoCreditLine,
       rd_Batch := rd_Batch ?r0 @ [demoReadBatch]\<rparr>"
  have i0: "rd_r ?r0 = BatchHeader_Write (b_BatchHeader demoBatch) @ CHR 0x0A
      # (Record_Write demoUnknown @ CHR 0x0A # demoCreditLine)"
    by (simp add: NewReader_def demoBadInput_def)
  have s0: "readRecordOrHeaderOrTrailer ?r0 = Inr (None, ?r1)"
    unfolding demoReadBatch_def
    by (rule step_batch_header_line [OF i0 wfBatchHeader_demo oneLine_demo(4)])
  have i1: "rd_r ?r1 = Record_Write demoUnknown @ CHR 0x0A # demoCreditLine" by simp
  have s1: "readRecordOrHeaderOrTrailer ?r1 = Inr (Some ErrInvalidRecord, ?r1\<lparr>rd_r := demoCreditLine\<rparr>)"
    using step_record_line [OF i1 wfRecord_demo(3) oneLine_demo(3)] by simp
  have "ReadAll ?r0 = ReadAll ?r1" by (rule ReadAll_step_ok [OF s0])
  also have "\<dots> = Inr (rd_Batch (?r1\<lparr>rd_r := demoCreditLine\<rparr>), Some ErrInvalidRecord,
      ?r1\<lparr>rd_r := demoCreditLine\<rparr>)"
    by (rule ReadAll_step_error [OF s1]) simp
  finally have "ReadAll ?r0 = Inr ([demoReadBatch], Some ErrInvalidRecord,
      (NewReader (Record_Write demoCredit @ [CHR 0x0A]))\<lparr>rd_Batch := [demoReadBatch]\<rparr>)"
    by (simp add: NewReader_def demoCreditLine_def)
  moreover have "b_Records demoReadBatch = []" by (simp add: demoReadBatch_def zeroBatch_def)
  moreover have "demoBadInput = BatchHeader_Write (b_BatchHeader demoBatch) @ [CHR 0x0A]
     @ Record_Write demoUnknown @ [CHR 0x0A] @ Record_Write demoCredit @ [CHR 0x0A]"
    by (simp add: demoBadInput_def demoCreditLine_def)
  ultimately show ?thesis by simp
qed

text \<open>
  Claim C9. On a new reader, an input whose first line starts with \<^verbatim>\<open>2\<close> and decodes
  without error to a (valid) record makes \<^verbatim>\<open>ReadAll\<close> index the empty batch list: the
  panic of the append. When in the lines of the input a line that starts with \<^verbatim>\<open>1\<close>
  comes before every line that starts with \<^verbatim>\<open>2\<close>, \<^verbatim>\<open>ReadAll\<close> never panics there.
\<close>

theorem ReadAll_record_before_header:
  "(firstByte inp = Some (CHR ''2'')
      \<and> fst (Record_Read zeroRecord (fst (ReadString inp))) = None
    \<longrightarrow> ReadAll (NewReader inp) = Inl IndexOutOfRange_Records)
   \<and> (headersFirst (splitLines inp') \<longrightarrow>
        ReadAll (NewReader inp') \<noteq> Inl IndexOutOfRange_Records)"
proof (intro conjI impI)
  assume a: "firstByte inp = Some (CHR ''2'')
      \<and> fst (Record_Read zeroRecord (fst (ReadString inp))) = None"
  then obtain cs where i: "rd_r (NewReader inp) = CHR ''2'' # cs"
    by (cases inp) (simp_all add: firstByte_def NewReader_def)
  obtain line rest where rs: "ReadString (rd_r (NewReader inp)) = (line, rest)"
    by (cases "ReadString (rd_r (NewReader inp))")
  obtain err x where rr: "Record_Read zeroRecord line = (err, x)"
    by (cases "Record_Read zeroRecord line")
  from a rs rr have err: "err = None" by (simp add: NewReader_def)
  have v: "IsValid x"
    using rr err by (auto simp: Record_Read_def Let_def split: if_splits)
  have "readRecordOrHeaderOrTrailer (NewReader inp) = Inl IndexOutOfRange_Records"
    unfolding step_unfold [OF i rs] by (simp add: rr err v Let_def) (simp add: NewReader_def)
  then show "ReadAll (NewReader inp) = Inl IndexOutOfRange_Records"
    by (rule ReadAll_step_panic)
next
  assume "headersFirst (splitLines inp')"
  then show "ReadAll (NewReader inp') \<noteq> Inl IndexOutOfRange_Records"
    by (rule ReadAll_headersFirst)
qed

lemma splitLines_line:
  "oneLine body \<Longrightarrow> splitLines (body @ CHR 0x0A # rest) = (body @ [CHR 0x0A]) # splitLines rest"
  by (subst splitLines.simps) (simp add: ReadString_line oneLine_def)

lemma splitLines_Nil [simp]: "splitLines [] = []"
  by (subst splitLines.simps) simp

theorem ReadAll_record_before_header_witness:
  "firstByte demoCreditLine = Some (CHR ''2'')
   \<and> fst (Record_Read zeroRecord (fst (ReadString demoCreditLine))) = None
   \<and> ReadAll (NewReader demoCreditLine) = Inl IndexOutOfRange_Records
   \<and> splitLines demoGoodInput
       = [BatchHeader_Write (b_BatchHeader demoBatch) @ [CHR 0x0A], demoCreditLine]
   \<and> headersFirst (splitLines demoGoodInput)
   \<and> ReadAll (NewReader demoGoodInput) \<noteq> Inl IndexOutOfRange_Records"
proof -
  obtain t where st: "Record_Write demoCredit = CHR ''2'' # t"
    using Record_Write_starts by blast
  obtain u where su: "BatchHeader_Write (b_BatchHeader demoBatch) = CHR ''1'' # u"
    using BatchHeader_Write_starts by blast
  have nl: "length [CHR 0x0A] = 1 \<or> length [CHR 0x0A] = 2" by simp
  have h1: "firstByte demoCreditLine = Some (CHR ''2'')"
    by (simp add: demoCreditLine_def st)
  have rs: "ReadString demoCreditLine = (Record_Write demoCredit @ [CHR 0x0A], [])"
    using ReadString_line [of "Record_Write demoCredit" "[]"] oneLine_demo(2)
    by (simp add: demoCreditLine_def oneLine_def)
  have h2: "fst (Record_Read zeroRecord (fst (ReadString demoCreditLine))) = None"
    by (simp add: rs Record_roundtrip [OF wfRecord_demo(2) nl])
  have sl: "splitLines demoGoodInput
       = [BatchHeader_Write (b_BatchHeader demoBatch) @ [CHR 0x0A], demoCreditLine]"
    using splitLines_line [OF oneLine_demo(4), of demoCreditLine]
      splitLines_line [OF oneLine_demo(2), of "[]"]
    by (simp add: demoGoodInput_def demoCreditLine_def)
  have h3: "headersFirst (splitLines demoGoodInput)"
    unfolding sl headersFirst_def
    by (auto simp: less_Suc_eq demoCreditLine_def st su)
  from ReadAll_record_before_header [of demoCreditLine demoGoodInput] h1 h2 h3
  have "ReadAll (NewReader demoCreditLine) = Inl IndexOutOfRange_Records"
    and "ReadAll (NewReader demoGoodInput) \<noteq> Inl IndexOutOfRange_Records"
    by blast+
  with h1 h2 h3 sl show ?thesis by blast
qed

end
